theory Spec2Isabelle
  imports Main
begin

section \<open>Wall-clock time in the configured zone\<close>

text \<open>
  The bot reads the clock with \<^verbatim>\<open>moment.tz(TIMEZONE)\<close>. An instant is modelled as the
  number of milliseconds on the wall clock of the configured zone. The default zone,
  Asia/Makassar, has a fixed offset and no daylight saving, so a calendar day is
  86400000 ms and the field setters of moment are linear.
\<close>

type_synonym instant = int

definition hour_ms :: int where
  "hour_ms = 3600000"

definition minute_ms :: int where
  "minute_ms = 60000"

definition day_ms :: int where
  "day_ms = 86400000"

definition startOfDay :: "instant \<Rightarrow> instant" where
  "startOfDay t = t - t mod day_ms"

text \<open>
  \<^verbatim>\<open>m.hour(h).minute(mi).second(0).millisecond(0)\<close>: the hour field is replaced, then the
  minute field, then seconds and milliseconds are cleared. Values beyond the field's
  range bubble into the next unit, as moment does (hour 25 is 01:00 of the next day).
\<close>

definition set_hour_minute :: "instant \<Rightarrow> int \<Rightarrow> int \<Rightarrow> instant" where
  "set_hour_minute t h mi = startOfDay t + h * hour_ms + mi * minute_ms"

text \<open>\<^verbatim>\<open>m.add(1, "day")\<close>\<close>

definition add_day :: "instant \<Rightarrow> instant" where
  "add_day t = t + day_ms"

definition hour_of :: "instant \<Rightarrow> int" where
  "hour_of t = (t mod day_ms) div hour_ms"

definition minute_of :: "instant \<Rightarrow> int" where
  "minute_of t = (t mod hour_ms) div minute_ms"

section \<open>Characters and the regular expressions of the parser\<close>

text \<open>
  A JavaScript string is modelled as a \<^typ>\<open>string\<close> whose characters are the code units 0
  to 255; code units above 255 are not represented. Among these, the white space of
  the class \<^verbatim>\<open>\s\<close> and of \<^verbatim>\<open>trim\<close> is tab, line feed, vertical tab, form feed, carriage
  return, space and the no-break space (160). The classes \<^verbatim>\<open>\d\<close> and \<^verbatim>\<open>\w\<close> are ASCII in
  JavaScript. Case is folded on the letters A to Z: the patterns and the strings that
  texts are compared with are ASCII, and no other character below 256 folds to an ASCII
  letter.
\<close>

definition isSpace :: "char \<Rightarrow> bool" where
  "isSpace c = (of_char c \<in> {9, 10, 11, 12, 13, 32, 160 :: nat})"

definition isDigit :: "char \<Rightarrow> bool" where
  "isDigit c = (c \<in> set ''0123456789'')"

definition isUpper :: "char \<Rightarrow> bool" where
  "isUpper c = (c \<in> set ''ABCDEFGHIJKLMNOPQRSTUVWXYZ'')"

definition isLower :: "char \<Rightarrow> bool" where
  "isLower c = (c \<in> set ''abcdefghijklmnopqrstuvwxyz'')"

definition isWord :: "char \<Rightarrow> bool" where
  "isWord c = (isDigit c \<or> isUpper c \<or> isLower c \<or> c = CHR ''_'')"

definition lowerChar :: "char \<Rightarrow> char" where
  "lowerChar c =
     (case map_of (zip ''ABCDEFGHIJKLMNOPQRSTUVWXYZ'' ''abcdefghijklmnopqrstuvwxyz'') c of
        Some l \<Rightarrow> l
      | None \<Rightarrow> c)"

definition toLowerCase :: "string \<Rightarrow> string" where
  "toLowerCase s = map lowerChar s"

text \<open>\<^verbatim>\<open>String.prototype.trim\<close>\<close>

definition trim :: "string \<Rightarrow> string" where
  "trim s = rev (dropWhile isSpace (rev (dropWhile isSpace s)))"

text \<open>A lower-case literal matched at the head of the input under the flag \<^verbatim>\<open>i\<close>.\<close>

definition lit :: "string \<Rightarrow> string \<Rightarrow> bool" where
  "lit p s = (length p \<le> length s \<and> toLowerCase (take (length p) s) = p)"

text \<open>
  \<^verbatim>\<open>Number(s)\<close> on the captures of the patterns below, which are non-empty runs of
  decimal digits.
\<close>

definition digitVal :: "char \<Rightarrow> int" where
  "digitVal c = int (of_char c) - 48"

definition Number :: "string \<Rightarrow> int" where
  "Number s = foldl (\<lambda>acc c. 10 * acc + digitVal c) 0 s"

text \<open>
  The captures of
  \<^verbatim>\<open>/(pukul|jam)\s*(\d{1,2})([:.](\d{2}))?\s*(pagi|siang|sore|malam|am|pm)?/i\<close>:
  group 2 (the hour digits), group 4 (the minute digits, absent when the optional
  group did not match) and group 5 (the meridiem as written, absent likewise).
\<close>

record hour_match =
  m2 :: string
  m4 :: "string option"
  m5 :: "string option"

text \<open>The alternation \<^verbatim>\<open>(pukul|jam)\<close> at the head of the input: what follows it.\<close>

definition afterKeyword :: "string \<Rightarrow> string option" where
  "afterKeyword s =
     (if lit ''pukul'' s then Some (drop (length ''pukul'') s)
      else if lit ''jam'' s then Some (drop (length ''jam'') s)
      else None)"

text \<open>\<^verbatim>\<open>(\d{1,2})\<close>, greedy: two digits when there are two, else one.\<close>

definition hourDigits :: "string \<Rightarrow> (string \<times> string) option" where
  "hourDigits s =
     (case s of
        [] \<Rightarrow> None
      | a # r \<Rightarrow>
          if \<not> isDigit a then None
          else (case r of
                  [] \<Rightarrow> Some ([a], r)
                | b # r' \<Rightarrow> if isDigit b then Some ([a, b], r') else Some ([a], r)))"

text \<open>\<^verbatim>\<open>([:.](\d{2}))?\<close>, greedy: taken whenever a separator and two digits follow.\<close>

definition minuteGroup :: "string \<Rightarrow> string option \<times> string" where
  "minuteGroup s =
     (case s of
        sep # a # b # r \<Rightarrow>
          if (sep = CHR '':'' \<or> sep = CHR ''.'') \<and> isDigit a \<and> isDigit b
          then (Some [a, b], r) else (None, s)
      | _ \<Rightarrow> (None, s))"

text \<open>\<^verbatim>\<open>(pagi|siang|sore|malam|am|pm)?\<close>: the first alternative that matches, as written.\<close>

definition meridiemGroup :: "string \<Rightarrow> string option" where
  "meridiemGroup s =
     (if lit ''pagi'' s then Some (take (length ''pagi'') s)
      else if lit ''siang'' s then Some (take (length ''siang'') s)
      else if lit ''sore'' s then Some (take (length ''sore'') s)
      else if lit ''malam'' s then Some (take (length ''malam'') s)
      else if lit ''am'' s then Some (take (length ''am'') s)
      else if lit ''pm'' s then Some (take (length ''pm'') s)
      else None)"

text \<open>
  The pattern tried at the head of the input. Everything after the hour digits is
  optional, so the match succeeds as soon as a keyword, optional white space and a digit
  are found.
\<close>

definition matchHere :: "string \<Rightarrow> hour_match option" where
  "matchHere s =
     (case afterKeyword s of
        None \<Rightarrow> None
      | Some r0 \<Rightarrow>
          (case hourDigits (dropWhile isSpace r0) of
             None \<Rightarrow> None
           | Some (h, r1) \<Rightarrow>
               (case minuteGroup r1 of
                  (mi, r2) \<Rightarrow>
                    Some \<lparr>m2 = h, m4 = mi, m5 = meridiemGroup (dropWhile isSpace r2)\<rparr>)))"

text \<open>\<^verbatim>\<open>text.match(re)\<close>: the leftmost position at which the pattern matches.\<close>

fun matchHour :: "string \<Rightarrow> hour_match option" where
  "matchHour [] = matchHere []"
| "matchHour (c # cs) =
     (case matchHere (c # cs) of
        Some m \<Rightarrow> Some m
      | None \<Rightarrow> matchHour cs)"

text \<open>
  \<^verbatim>\<open>/\bw\b/i.test(text)\<close> for a literal \<open>w\<close> that starts and ends with a word character:
  the literal occurs with no word character right before or right after it. The flag
  says whether the character before the current position is a word character.
\<close>

fun testWord :: "string \<Rightarrow> bool \<Rightarrow> string \<Rightarrow> bool" where
  "testWord w prev [] = False"
| "testWord w prev (c # cs) =
     ((\<not> prev \<and> lit w (c # cs) \<and>
       (case drop (length w) (c # cs) of [] \<Rightarrow> True | d # _ \<Rightarrow> \<not> isWord d))
      \<or> testWord w (isWord c) cs)"

definition containsHariIni :: "string \<Rightarrow> bool" where
  "containsHariIni text = (testWord ''hari ini'' False text \<or> testWord ''today'' False text)"

section \<open>The temporal resolver\<close>

text \<open>
  \<^verbatim>\<open>extractHourPreferToday(text)\<close>. The clock is read once, when the candidate is built;
  it is the parameter \<open>now\<close>. The result is \<open>None\<close> for JavaScript's \<^verbatim>\<open>null\<close>.
\<close>

definition extractHourPreferToday :: "instant \<Rightarrow> string \<Rightarrow> instant option" where
  "extractHourPreferToday now text =
     (case matchHour text of
        None \<Rightarrow> None
      | Some m \<Rightarrow>
          let hour = Number (m2 m);
              minute = (case m4 m of Some d \<Rightarrow> Number d | None \<Rightarrow> 0);
              meridiem = (case m5 m of Some w \<Rightarrow> toLowerCase w | None \<Rightarrow> []);
              hour' =
                (if meridiem \<noteq> [] then
                   (if meridiem = ''pagi'' \<and> hour = 12 then 0
                    else if (meridiem = ''siang'' \<or> meridiem = ''sore'' \<or> meridiem = ''malam'')
                            \<and> hour < 12 then hour + 12
                    else if meridiem = ''pm'' \<and> hour < 12 then hour + 12
                    else if meridiem = ''am'' \<and> hour = 12 then 0
                    else hour)
                 else hour)
          in Some (set_hour_minute now hour' minute))"

text \<open>
  What \<^verbatim>\<open>parseIndoPrefer\<close> returns: a moment, the object
  \<^verbatim>\<open>{ error: "time_passed_today", candidate }\<close>, or \<^verbatim>\<open>null\<close>.
\<close>

datatype parsed = Moment instant | TimePassedToday instant | Null

text \<open>
  \<^verbatim>\<open>parseIndoPrefer(text)\<close>. Both clock reads of one call (its own and the one in
  \<^verbatim>\<open>extractHourPreferToday\<close>) are the instant \<open>now\<close>. When no hour pattern is found the
  function hands the text to the chrono-node library (after \<^verbatim>\<open>normalizeIndo\<close>, then raw);
  that library is not part of the repository, so this tail of the function is the
  parameter \<open>chrono\<close>, which returns the moment found or nothing.
\<close>

definition parseIndoPrefer :: "(instant \<Rightarrow> string \<Rightarrow> instant option) \<Rightarrow> instant \<Rightarrow> string \<Rightarrow> parsed" where
  "parseIndoPrefer chrono now text =
     (case extractHourPreferToday now text of
        Some manual \<Rightarrow>
          if now < manual then Moment manual
          else if containsHariIni text then TimePassedToday manual
          else Moment (add_day manual)
      | None \<Rightarrow>
          (case chrono now text of
             Some m \<Rightarrow> Moment m
           | None \<Rightarrow> Null))"

section \<open>The meridiem table as the specification words it\<close>

text \<open>
  The specification names the meridiem tokens morning, noon, afternoon, evening, am and
  pm; in the source they are the words pagi, siang, sore, malam, am and pm. The table
  below is written from the specification, to be compared with the code.
\<close>

datatype meridiem = Morning | Noon | Afternoon | Evening | AM | PM

definition meridiemToken :: "string \<Rightarrow> meridiem option" where
  "meridiemToken w =
     (if w = ''pagi'' then Some Morning
      else if w = ''siang'' then Some Noon
      else if w = ''sore'' then Some Afternoon
      else if w = ''malam'' then Some Evening
      else if w = ''am'' then Some AM
      else if w = ''pm'' then Some PM
      else None)"

fun spec_hour24 :: "meridiem option \<Rightarrow> int \<Rightarrow> int" where
  "spec_hour24 (Some Morning) h = (if h = 12 then 0 else h)"
| "spec_hour24 (Some Noon) h = (if h < 12 then h + 12 else h)"
| "spec_hour24 (Some Afternoon) h = (if h < 12 then h + 12 else h)"
| "spec_hour24 (Some Evening) h = (if h < 12 then h + 12 else h)"
| "spec_hour24 (Some PM) h = (if h < 12 then h + 12 else h)"
| "spec_hour24 (Some AM) h = (if h = 12 then 0 else h)"
| "spec_hour24 None h = h"

definition spec_minute :: "string option \<Rightarrow> int" where
  "spec_minute d = (case d of None \<Rightarrow> 0 | Some ds \<Rightarrow> Number ds)"

definition spec_meridiem :: "string option \<Rightarrow> meridiem option" where
  "spec_meridiem w = (case w of None \<Rightarrow> None | Some t \<Rightarrow> meridiemToken (toLowerCase t))"

section \<open>The notes table\<close>

text \<open>
  The text held in column \<^verbatim>\<open>reminder_at\<close>: an ISO string, which moment parses back to the
  instant it was written from, or text for which \<^verbatim>\<open>isValid()\<close> is false. SQL \<^verbatim>\<open>NULL\<close> is
  \<open>None\<close> in the row.
\<close>

datatype stored_time = Iso instant | Unparsable

record note_row =
  note_id :: nat
  chat_id :: int
  note_text :: string
  reminder_at :: "stored_time option"
  reminded :: bool
  status :: string

text \<open>\<^verbatim>\<open>SELECT * FROM notes WHERE id = ? AND chat_id = ?\<close>\<close>

definition getNoteById :: "nat \<Rightarrow> int \<Rightarrow> note_row list \<Rightarrow> note_row option" where
  "getNoteById i chat rows = find (\<lambda>n. note_id n = i \<and> chat_id n = chat) rows"

text \<open>\<^verbatim>\<open>UPDATE notes SET reminder_at = ?, reminded = 0 WHERE id = ? AND chat_id = ?\<close>\<close>

definition updateNoteReminder :: "stored_time \<Rightarrow> nat \<Rightarrow> int \<Rightarrow> note_row list \<Rightarrow> note_row list" where
  "updateNoteReminder at i chat rows =
     map (\<lambda>n. if note_id n = i \<and> chat_id n = chat
                then n\<lparr>reminder_at := Some at, reminded := False\<rparr> else n) rows"

text \<open>\<^verbatim>\<open>UPDATE notes SET text = ? WHERE id = ? AND chat_id = ?\<close>\<close>

definition updateNoteText :: "string \<Rightarrow> nat \<Rightarrow> int \<Rightarrow> note_row list \<Rightarrow> note_row list" where
  "updateNoteText t i chat rows =
     map (\<lambda>n. if note_id n = i \<and> chat_id n = chat then n\<lparr>note_text := t\<rparr> else n) rows"

text \<open>\<^verbatim>\<open>UPDATE notes SET reminded = 1 WHERE id = ?\<close>\<close>

definition markReminded :: "nat \<Rightarrow> note_row list \<Rightarrow> note_row list" where
  "markReminded i rows = map (\<lambda>n. if note_id n = i then n\<lparr>reminded := True\<rparr> else n) rows"

section \<open>The scheduler\<close>

text \<open>
  A job of node-schedule: the identity of the \<^verbatim>\<open>Job\<close> object, the date it was scheduled
  for, and the note its callback closes over.
\<close>

record job =
  job_handle :: nat
  fire_at :: instant
  job_note :: note_row

text \<open>
  The scheduler's part of the process state: the map \<^verbatim>\<open>scheduledJobs\<close> from reminder id to
  job; the one-shot jobs that node-schedule holds armed (scheduled, neither fired nor
  cancelled); the jobs that have fired and whose callback is suspended at
  \<^verbatim>\<open>await bot.sendMessage(...)\<close>; and the next unused job identity.
\<close>

record sched =
  scheduledJobs :: "nat \<rightharpoonup> nat"
  armed :: "job list"
  awaiting :: "job list"
  next_job :: nat

definition sched0 :: sched where
  "sched0 = \<lparr>scheduledJobs = Map.empty, armed = [], awaiting = [], next_job = 0\<rparr>"

text \<open>\<^verbatim>\<open>job.cancel()\<close>: the job is no longer armed. A job that has fired is not affected.\<close>

definition cancel :: "nat \<Rightarrow> sched \<Rightarrow> sched" where
  "cancel h s = s\<lparr>armed := filter (\<lambda>j. job_handle j \<noteq> h) (armed s)\<rparr>"

text \<open>
  \<^verbatim>\<open>scheduleNoteJob(note)\<close>. The argument is \<open>None\<close> when the caller's lookup found no row.
  The clock read of the call is \<open>now\<close>; node-schedule arms the job for a date that has
  passed this guard.
\<close>

definition scheduleNoteJob :: "instant \<Rightarrow> note_row option \<Rightarrow> sched \<Rightarrow> sched" where
  "scheduleNoteJob now arg s =
     (case arg of
        None \<Rightarrow> s
      | Some note \<Rightarrow>
          (case reminder_at note of
             None \<Rightarrow> s
           | Some Unparsable \<Rightarrow> s
           | Some (Iso when) \<Rightarrow>
               if when < now then s
               else
                 let s1 = (case scheduledJobs s (note_id note) of
                             Some h \<Rightarrow>
                               (cancel h s)\<lparr>scheduledJobs := (scheduledJobs s)(note_id note := None)\<rparr>
                           | None \<Rightarrow> s);
                     j = \<lparr>job_handle = next_job s1, fire_at = when, job_note = note\<rparr>
                 in s1\<lparr>armed := armed s1 @ [j],
                       next_job := Suc (next_job s1),
                       scheduledJobs := (scheduledJobs s1)(note_id note \<mapsto> job_handle j)\<rparr>))"

text \<open>The \<^verbatim>\<open>/delete\<close> command's part on the scheduler: cancel and remove if present.\<close>

definition cancelNoteJob :: "nat \<Rightarrow> sched \<Rightarrow> sched" where
  "cancelNoteJob i s =
     (case scheduledJobs s i of
        Some h \<Rightarrow> (cancel h s)\<lparr>scheduledJobs := (scheduledJobs s)(i := None)\<rparr>
      | None \<Rightarrow> s)"

text \<open>
  The startup loop: the rows selected by
  \<^verbatim>\<open>SELECT * FROM notes WHERE reminder_at IS NOT NULL AND reminded = 0\<close>, each handed to
  \<^verbatim>\<open>scheduleNoteJob\<close>, from the empty map. The loop runs at the instant \<open>now\<close>.
\<close>

definition existing :: "note_row list \<Rightarrow> note_row list" where
  "existing rows = filter (\<lambda>n. reminder_at n \<noteq> None \<and> \<not> reminded n) rows"

definition recover :: "instant \<Rightarrow> note_row list \<Rightarrow> sched" where
  "recover now rows = foldl (\<lambda>s n. scheduleNoteJob now (Some n) s) sched0 (existing rows)"

section \<open>Outbound messages\<close>

text \<open>Outbound messages, by kind and interpolated values.\<close>

datatype outmsg =
    ReminderMsg string
  | SessionExpired
  | MainMenu
  | TextUpdated nat
  | TimePassedRetry
  | TimeNotRecognised
  | TimeUpdated nat instant
  | AskWhen
  | AskTomorrowSameHour string
  | ReminderSaved nat instant
  | ScheduledTomorrow nat instant
  | AskNewTime
  | ReminderSet nat instant
  | AskAbout
  | AskTomorrowNatural
  | SavedTemporarily nat
  | NotUnderstood
  | NoteNotFound nat
  | AskNewTimeFor nat

section \<open>Sessions and their expiry timers\<close>

text \<open>
  A session object, tagged by its \<^verbatim>\<open>mode\<close>: the edit modes carry the reminder id;
  \<^verbatim>\<open>create_reminder\<close> carries its step and, from step 2 on, the text;
  \<^verbatim>\<open>confirm_next_for_reminder\<close> carries the text, the candidate formatted as \<^verbatim>\<open>HH:mm\<close>
  and, when entered from the natural-language path, the id of the row written there;
  \<^verbatim>\<open>await_time_for_note\<close> carries the id. The two report wizards are one constructor:
  their steps are outside this development.
\<close>

datatype session =
    EditNoteText nat
  | EditNoteTime nat
  | CreateReminder nat "string option"
  | ConfirmNext "nat option" string string
  | AwaitTimeForNote nat
  | ReportWizard

text \<open>A live timer of \<^verbatim>\<open>setTimeout\<close>: its handle, the chat its callback closes over, its deadline.\<close>

record timeout =
  timeout_handle :: nat
  timeout_chat :: int
  deadline :: instant

record sess =
  userState :: "int \<rightharpoonup> session"
  stateTimeouts :: "int \<rightharpoonup> nat"
  timeouts :: "timeout list"
  next_timeout :: nat

definition sess0 :: sess where
  "sess0 = \<lparr>userState = Map.empty, stateTimeouts = Map.empty, timeouts = [], next_timeout = 0\<rparr>"

definition clearTimeout :: "nat \<Rightarrow> sess \<Rightarrow> sess" where
  "clearTimeout h s = s\<lparr>timeouts := filter (\<lambda>t. timeout_handle t \<noteq> h) (timeouts s)\<rparr>"

text \<open>\<^verbatim>\<open>setState(chatId, stateObj)\<close>, called at the instant \<open>now\<close>.\<close>

definition setState :: "instant \<Rightarrow> int \<Rightarrow> session \<Rightarrow> sess \<Rightarrow> sess" where
  "setState now chatId stateObj s =
     (let s1 = s\<lparr>userState := (userState s)(chatId \<mapsto> stateObj)\<rparr>;
          s2 = (case stateTimeouts s1 chatId of
                  Some h \<Rightarrow> clearTimeout h s1
                | None \<Rightarrow> s1);
          t = \<lparr>timeout_handle = next_timeout s2, timeout_chat = chatId,
               deadline = now + 2 * 60 * 1000\<rparr>
      in s2\<lparr>timeouts := timeouts s2 @ [t],
            next_timeout := Suc (next_timeout s2),
            stateTimeouts := (stateTimeouts s2)(chatId \<mapsto> timeout_handle t)\<rparr>)"

text \<open>\<^verbatim>\<open>clearState(chatId)\<close>\<close>

definition clearState :: "int \<Rightarrow> sess \<Rightarrow> sess" where
  "clearState chatId s =
     (let s1 = s\<lparr>userState := (userState s)(chatId := None)\<rparr>
      in case stateTimeouts s1 chatId of
           Some h \<Rightarrow> (clearTimeout h s1)\<lparr>stateTimeouts := (stateTimeouts s1)(chatId := None)\<rparr>
         | None \<Rightarrow> s1)"

text \<open>
  The callback of an expiry timer, on the two maps: the timer \<open>h\<close> goes off (it is live),
  leaves the set of live timers, and its callback deletes the session and the map entry
  of its chat.
\<close>

definition expire :: "nat \<Rightarrow> sess \<Rightarrow> sess" where
  "expire h s =
     (case find (\<lambda>t. timeout_handle t = h) (timeouts s) of
        None \<Rightarrow> s
      | Some t \<Rightarrow>
          s\<lparr>timeouts := filter (\<lambda>t. timeout_handle t \<noteq> h) (timeouts s),
            userState := (userState s)(timeout_chat t := None),
            stateTimeouts := (stateTimeouts s)(timeout_chat t := None)\<rparr>)"

text \<open>The session states the process can be in: any sequence of the three operations.\<close>

inductive sess_reachable :: "sess \<Rightarrow> bool" where
  init: "sess_reachable sess0"
| set: "sess_reachable s \<Longrightarrow> sess_reachable (setState now chatId stateObj s)"
| clear: "sess_reachable s \<Longrightarrow> sess_reachable (clearState chatId s)"
| expiry: "sess_reachable s \<Longrightarrow> sess_reachable (expire h s)"

section \<open>The process state and the fire callback\<close>

text \<open>
  The state of the process: the table \<^verbatim>\<open>notes\<close> with the last row id handed out by
  \<^verbatim>\<open>AUTOINCREMENT\<close>, the scheduler, the sessions, the messages delivered to the gateway,
  and what was written with \<^verbatim>\<open>console.error\<close>.
\<close>

record bot =
  notes_table :: "note_row list"
  last_rowid :: nat
  sched :: sched
  sess :: sess
  outbox :: "(int \<times> outmsg) list"
  errlog :: "string list"

definition bot0 :: bot where
  "bot0 = \<lparr>notes_table = [], last_rowid = 0, sched = sched0, sess = sess0, outbox = [], errlog = []\<rparr>"

definition send :: "int \<Rightarrow> outmsg \<Rightarrow> bot \<Rightarrow> bot" where
  "send chat m b = b\<lparr>outbox := outbox b @ [(chat, m)]\<rparr>"

definition showMainMenu :: "int \<Rightarrow> bot \<Rightarrow> bot" where
  "showMainMenu chat b = send chat MainMenu b"

text \<open>\<^verbatim>\<open>INSERT INTO notes (chat_id, text, reminder_at) VALUES (?, ?, ?)\<close> and its \<^verbatim>\<open>lastInsertRowid\<close>\<close>

definition insertNote :: "int \<Rightarrow> string \<Rightarrow> stored_time option \<Rightarrow> bot \<Rightarrow> nat \<times> bot" where
  "insertNote chat t at b =
     (let i = Suc (last_rowid b)
      in (i, b\<lparr>notes_table := notes_table b @ [\<lparr>note_id = i, chat_id = chat, note_text = t,
                                      reminder_at = at, reminded = False,
                                      status = ''pending''\<rparr>],
                last_rowid := i\<rparr>))"

text \<open>
  The job \<open>h\<close> goes off: it is no longer armed, and its callback runs up to
  \<^verbatim>\<open>await bot.sendMessage(...)\<close>, where it is suspended until the gateway answers. Other
  events are handled in between.
\<close>

definition timer_fires :: "nat \<Rightarrow> sched \<Rightarrow> sched" where
  "timer_fires h s =
     (case find (\<lambda>j. job_handle j = h) (armed s) of
        None \<Rightarrow> s
      | Some j \<Rightarrow>
          s\<lparr>armed := filter (\<lambda>j. job_handle j \<noteq> h) (armed s), awaiting := awaiting s @ [j]\<rparr>)"

text \<open>
  How the suspended callback goes on: the message is delivered and the row is updated;
  or \<^verbatim>\<open>sendMessage\<close> rejects; or the message is delivered and the update throws.
\<close>

datatype delivery = Delivered | SendRejected | UpdateThrew

text \<open>
  The \<^verbatim>\<open>try\<close> block of the callback: the state it leaves and the exception it threw, if
  any.
\<close>

definition callback_try :: "delivery \<Rightarrow> job \<Rightarrow> bot \<Rightarrow> bot \<times> string option" where
  "callback_try d j b =
     (case d of
        SendRejected \<Rightarrow> (b, Some ''sendMessage'')
      | UpdateThrew \<Rightarrow>
          (send (chat_id (job_note j)) (ReminderMsg (note_text (job_note j))) b, Some ''update'')
      | Delivered \<Rightarrow>
          ((send (chat_id (job_note j)) (ReminderMsg (note_text (job_note j))) b)
              \<lparr>notes_table := markReminded (note_id (job_note j)) (notes_table b)\<rparr>, None))"

text \<open>
  The callback of job \<open>h\<close> resumes with the outcome \<open>d\<close>: the \<^verbatim>\<open>try\<close> block, the \<^verbatim>\<open>catch\<close>
  that logs, and then \<^verbatim>\<open>scheduledJobs.delete(id)\<close>.
\<close>

definition callback_resumes :: "nat \<Rightarrow> delivery \<Rightarrow> bot \<Rightarrow> bot" where
  "callback_resumes h d b =
     (case find (\<lambda>j. job_handle j = h) (awaiting (sched b)) of
        None \<Rightarrow> b
      | Some j \<Rightarrow>
          (case callback_try d j b of
             (b1, thrown) \<Rightarrow>
               let b2 = (case thrown of
                           Some e \<Rightarrow> b1\<lparr>errlog := errlog b1 @ [''Gagal mengirim reminder: '' @ e]\<rparr>
                         | None \<Rightarrow> b1)
               in b2\<lparr>sched := (sched b2)
                       \<lparr>awaiting := filter (\<lambda>j. job_handle j \<noteq> h) (awaiting (sched b2)),
                        scheduledJobs := (scheduledJobs (sched b2))(note_id (job_note j) := None)\<rparr>\<rparr>))"

text \<open>The callback of an expiry timer, with the two messages it sends.\<close>

definition timeout_fires :: "nat \<Rightarrow> bot \<Rightarrow> bot" where
  "timeout_fires h b =
     (case find (\<lambda>t. timeout_handle t = h) (timeouts (sess b)) of
        None \<Rightarrow> b
      | Some t \<Rightarrow>
          showMainMenu (timeout_chat t)
            (send (timeout_chat t) SessionExpired (b\<lparr>sess := expire h (sess b)\<rparr>)))"

section \<open>The message handler\<close>

text \<open>\<^verbatim>\<open>candidate.format("HH:mm")\<close>\<close>

definition digitChar :: "int \<Rightarrow> char" where
  "digitChar d = ''0123456789'' ! nat d"

definition pad2 :: "int \<Rightarrow> string" where
  "pad2 n = [digitChar (n div 10), digitChar (n mod 10)]"

definition formatHHmm :: "instant \<Rightarrow> string" where
  "formatHHmm t = pad2 (hour_of t) @ '':'' @ pad2 (minute_of t)"

text \<open>\<^verbatim>\<open>s.split(c)\<close>\<close>

fun split_on :: "char \<Rightarrow> string \<Rightarrow> string list" where
  "split_on c [] = [[]]"
| "split_on c (x # xs) =
     (if x = c then [] # split_on c xs
      else (case split_on c xs of
              p # ps \<Rightarrow> (x # p) # ps
            | [] \<Rightarrow> [[x]]))"

text \<open>
  \<^verbatim>\<open>const [hh, mm] = hhmm.split(":").map((n) => Number(n))\<close>; \<open>None\<close> when the split has
  fewer than two parts.
\<close>

definition parseHHmm :: "string \<Rightarrow> (int \<times> int) option" where
  "parseHHmm hhmm =
     (case map Number (split_on CHR '':'' hhmm) of
        hh # mm # _ \<Rightarrow> Some (hh, mm)
      | _ \<Rightarrow> None)"

text \<open>\<^verbatim>\<open>/^y(es|a)?$/i.test(text) || text.toLowerCase() === "ya"\<close>\<close>

definition affirmative :: "string \<Rightarrow> bool" where
  "affirmative text =
     ((toLowerCase text = ''y'' \<or> toLowerCase text = ''yes'' \<or> toLowerCase text = ''ya'')
      \<or> toLowerCase text = ''ya'')"

text \<open>\<^verbatim>\<open>/^(ingatkan|ingat|tolong ingatkan|remind)/i.test(text)\<close>\<close>

definition startsIngat :: "string \<Rightarrow> bool" where
  "startsIngat text =
     (lit ''ingatkan'' text \<or> lit ''ingat'' text \<or> lit ''tolong ingatkan'' text
      \<or> lit ''remind'' text)"

text \<open>\<^verbatim>\<open>text.replace(/^(ingatkan|ingat|tolong ingatkan)( saya| aku)?/i, "")\<close>\<close>

definition stripIngat :: "string \<Rightarrow> string" where
  "stripIngat text =
     (case (if lit ''ingatkan'' text then Some (drop (length ''ingatkan'') text)
            else if lit ''ingat'' text then Some (drop (length ''ingat'') text)
            else if lit ''tolong ingatkan'' text then Some (drop (length ''tolong ingatkan'') text)
            else None) of
        None \<Rightarrow> text
      | Some r \<Rightarrow>
          if lit '' saya'' r then drop (length '' saya'') r
          else if lit '' aku'' r then drop (length '' aku'') r
          else r)"

text \<open>
  Every label of the menu keyboard starts with an emoji, so a text of ASCII characters
  only is none of them.
\<close>

definition allAscii :: "string \<Rightarrow> bool" where
  "allAscii text = (\<forall>c \<in> set text. (of_char c :: nat) < 128)"

text \<open>Mode \<^verbatim>\<open>edit_note_text\<close>.\<close>

definition edit_note_text :: "int \<Rightarrow> string \<Rightarrow> nat \<Rightarrow> bot \<Rightarrow> bot" where
  "edit_note_text chatId text i b =
     showMainMenu chatId
       (send chatId (TextUpdated i)
          (b\<lparr>notes_table := updateNoteText text i chatId (notes_table b),
             sess := clearState chatId (sess b)\<rparr>))"

text \<open>Mode \<^verbatim>\<open>edit_note_time\<close>.\<close>

definition edit_note_time ::
  "(instant \<Rightarrow> string \<Rightarrow> instant option) \<Rightarrow> instant \<Rightarrow> int \<Rightarrow> string \<Rightarrow> nat \<Rightarrow> bot \<Rightarrow> bot" where
  "edit_note_time chrono now chatId text i b =
     (case parseIndoPrefer chrono now text of
        TimePassedToday c \<Rightarrow> send chatId TimePassedRetry b
      | Null \<Rightarrow> send chatId TimeNotRecognised b
      | Moment m \<Rightarrow>
          let b1 = b\<lparr>notes_table := updateNoteReminder (Iso m) i chatId (notes_table b)\<rparr>;
              b2 = b1\<lparr>sched := scheduleNoteJob now (getNoteById i chatId (notes_table b1)) (sched b1)\<rparr>;
              b3 = b2\<lparr>sess := clearState chatId (sess b2)\<rparr>
          in showMainMenu chatId (send chatId (TimeUpdated i m) b3))"

text \<open>Mode \<^verbatim>\<open>create_reminder\<close>, step 1.\<close>

definition create_reminder_1 :: "instant \<Rightarrow> int \<Rightarrow> string \<Rightarrow> bot \<Rightarrow> bot" where
  "create_reminder_1 now chatId text b =
     send chatId AskWhen
       (b\<lparr>sess := setState now chatId (CreateReminder 2 (Some text)) (sess b)\<rparr>)"

text \<open>Mode \<^verbatim>\<open>create_reminder\<close>, step 2, with the text captured at step 1.\<close>

definition create_reminder_2 ::
  "(instant \<Rightarrow> string \<Rightarrow> instant option) \<Rightarrow> instant \<Rightarrow> int \<Rightarrow> string \<Rightarrow> string \<Rightarrow> bot \<Rightarrow> bot" where
  "create_reminder_2 chrono now chatId text t b =
     (case parseIndoPrefer chrono now text of
        TimePassedToday c \<Rightarrow>
          send chatId (AskTomorrowSameHour (formatHHmm c))
            (b\<lparr>sess := setState now chatId (ConfirmNext None t (formatHHmm c)) (sess b)\<rparr>)
      | Null \<Rightarrow> send chatId TimeNotRecognised b
      | Moment m \<Rightarrow>
          (case insertNote chatId t (Some (Iso m)) b of
             (i, b1) \<Rightarrow>
               let b2 = b1\<lparr>sched := scheduleNoteJob now (getNoteById i chatId (notes_table b1)) (sched b1)\<rparr>;
                   b3 = b2\<lparr>sess := clearState chatId (sess b2)\<rparr>
               in showMainMenu chatId (send chatId (ReminderSaved i m) b3)))"

text \<open>
  Mode \<^verbatim>\<open>confirm_next_for_reminder\<close>, with the text and the candidate of the session. The
  result is \<open>None\<close> when the candidate does not split into two parts.
\<close>

definition confirm_next :: "instant \<Rightarrow> int \<Rightarrow> string \<Rightarrow> string \<Rightarrow> string \<Rightarrow> bot \<Rightarrow> bot option" where
  "confirm_next now chatId text t hhmm b =
     (if affirmative text then
        (case parseHHmm hhmm of
           None \<Rightarrow> None
         | Some (hh, mm) \<Rightarrow>
             let dt = set_hour_minute (add_day now) hh mm
             in (case insertNote chatId t (Some (Iso dt)) b of
                   (i, b1) \<Rightarrow>
                     let b2 = b1\<lparr>sched := scheduleNoteJob now (getNoteById i chatId (notes_table b1))
                                            (sched b1)\<rparr>;
                         b3 = b2\<lparr>sess := clearState chatId (sess b2)\<rparr>
                     in Some (showMainMenu chatId (send chatId (ScheduledTomorrow i dt) b3))))
      else
        Some (send chatId AskNewTime
                (b\<lparr>sess := setState now chatId (CreateReminder 2 (Some t)) (sess b)\<rparr>)))"

text \<open>Mode \<^verbatim>\<open>await_time_for_note\<close>.\<close>

definition await_time_for_note ::
  "(instant \<Rightarrow> string \<Rightarrow> instant option) \<Rightarrow> instant \<Rightarrow> int \<Rightarrow> string \<Rightarrow> nat \<Rightarrow> bot \<Rightarrow> bot" where
  "await_time_for_note chrono now chatId text i b =
     (case parseIndoPrefer chrono now text of
        Moment m \<Rightarrow>
          let b1 = b\<lparr>notes_table := updateNoteReminder (Iso m) i chatId (notes_table b)\<rparr>;
              b2 = b1\<lparr>sched := scheduleNoteJob now (getNoteById i chatId (notes_table b1)) (sched b1)\<rparr>;
              b3 = send chatId (ReminderSet i m) b2;
              b4 = b3\<lparr>sess := clearState chatId (sess b3)\<rparr>
          in showMainMenu chatId b4
      | _ \<Rightarrow> send chatId TimeNotRecognised b)"

text \<open>
  What the handler does when no mode branch has returned: the menu keyboard, the
  natural "ingatkan ..." fallback and the final fallback. The keyboard labels are not
  part of this development: the result is \<open>None\<close> for a text that could be one.
\<close>

definition no_state ::
  "(instant \<Rightarrow> string \<Rightarrow> instant option) \<Rightarrow> instant \<Rightarrow> int \<Rightarrow> string \<Rightarrow> bot \<Rightarrow> bot option" where
  "no_state chrono now chatId text b =
     (if \<not> allAscii text then None
      else if startsIngat text then
        (let noteText = trim (stripIngat text)
         in if noteText = [] then Some (send chatId AskAbout b)
            else (case parseIndoPrefer chrono now text of
                    TimePassedToday c \<Rightarrow>
                      (case insertNote chatId noteText None b of
                         (i, b1) \<Rightarrow>
                           Some (send chatId AskTomorrowNatural
                                   (b1\<lparr>sess := setState now chatId
                                                  (ConfirmNext (Some i) noteText (formatHHmm c))
                                                  (sess b1)\<rparr>)))
                  | Null \<Rightarrow>
                      (case insertNote chatId noteText None b of
                         (i, b1) \<Rightarrow>
                           Some (send chatId (SavedTemporarily i)
                                   (b1\<lparr>sess := setState now chatId (AwaitTimeForNote i) (sess b1)\<rparr>)))
                  | Moment m \<Rightarrow>
                      (case insertNote chatId noteText (Some (Iso m)) b of
                         (i, b1) \<Rightarrow>
                           let b2 = b1\<lparr>sched := scheduleNoteJob now
                                                  (getNoteById i chatId (notes_table b1)) (sched b1)\<rparr>
                           in Some (showMainMenu chatId (send chatId (ReminderSaved i m) b2)))))
      else Some (send chatId NotUnderstood b))"

text \<open>
  \<^verbatim>\<open>bot.on("message", ...)\<close> for a message with the text \<open>msg_text\<close> in chat \<open>chatId\<close>,
  handled at the instant \<open>now\<close>. The result is \<open>None\<close> where the handler leaves this
  development: the report wizards, the menu keyboard, and a step-2 session without a
  text, which the code never builds.
\<close>

definition on_message ::
  "(instant \<Rightarrow> string \<Rightarrow> instant option) \<Rightarrow> instant \<Rightarrow> int \<Rightarrow> string \<Rightarrow> bot \<Rightarrow> bot option" where
  "on_message chrono now chatId msg_text b =
     (if msg_text = [] then Some b
      else
        let text = trim msg_text
        in (case userState (sess b) chatId of
              Some (EditNoteText i) \<Rightarrow> Some (edit_note_text chatId text i b)
            | Some (EditNoteTime i) \<Rightarrow> Some (edit_note_time chrono now chatId text i b)
            | Some (CreateReminder stp t) \<Rightarrow>
                if stp = 1 then Some (create_reminder_1 now chatId text b)
                else if stp = 2 then
                  (case t of
                     Some captured \<Rightarrow> Some (create_reminder_2 chrono now chatId text captured b)
                   | None \<Rightarrow> None)
                else no_state chrono now chatId text b
            | Some (ConfirmNext i t hhmm) \<Rightarrow> confirm_next now chatId text t hhmm b
            | Some (AwaitTimeForNote i) \<Rightarrow> Some (await_time_for_note chrono now chatId text i b)
            | Some ReportWizard \<Rightarrow> None
            | None \<Rightarrow> no_state chrono now chatId text b))"

text \<open>
  The callback of \<^verbatim>\<open>bot.onText(/\/edit_time\s+(\d+)/, ...)\<close> for the id \<open>i\<close>. (The message
  that carries the command is also given to the message handler, before this callback.)
\<close>

definition edit_time_command :: "instant \<Rightarrow> int \<Rightarrow> nat \<Rightarrow> bot \<Rightarrow> bot" where
  "edit_time_command now chatId i b =
     (case getNoteById i chatId (notes_table b) of
        None \<Rightarrow> send chatId (NoteNotFound i) b
      | Some n \<Rightarrow>
          send chatId (AskNewTimeFor i)
            (b\<lparr>sess := setState now chatId (EditNoteTime i) (sess b)\<rparr>))"

section \<open>Events\<close>

text \<open>
  The process handles one event at a time: a message (with the instant it is handled
  at, the chat and the text), the \<^verbatim>\<open>/edit_time\<close> command, a job of the scheduler going
  off, the callback of a job resuming after its \<^verbatim>\<open>await\<close>, and an expiry timer going off.
  A run is a sequence of events; it is \<open>None\<close> when a message leaves this development.
\<close>

datatype event =
    Message instant int string
  | EditTimeCommand instant int nat
  | TimerFires nat
  | CallbackResumes nat delivery
  | TimeoutFires nat

fun step :: "(instant \<Rightarrow> string \<Rightarrow> instant option) \<Rightarrow> event \<Rightarrow> bot \<Rightarrow> bot option" where
  "step chrono (Message now chatId msg_text) b = on_message chrono now chatId msg_text b"
| "step chrono (EditTimeCommand now chatId i) b = Some (edit_time_command now chatId i b)"
| "step chrono (TimerFires h) b = Some (b\<lparr>sched := timer_fires h (sched b)\<rparr>)"
| "step chrono (CallbackResumes h d) b = Some (callback_resumes h d b)"
| "step chrono (TimeoutFires h) b = Some (timeout_fires h b)"

fun run :: "(instant \<Rightarrow> string \<Rightarrow> instant option) \<Rightarrow> event list \<Rightarrow> bot \<Rightarrow> bot option" where
  "run chrono [] b = Some b"
| "run chrono (e # es) b =
     (case step chrono e b of
        None \<Rightarrow> None
      | Some b' \<Rightarrow> run chrono es b')"

text \<open>Row ids handed out by \<^verbatim>\<open>AUTOINCREMENT\<close> are never above the last one.\<close>

definition rowids_ok :: "bot \<Rightarrow> bool" where
  "rowids_ok b = (\<forall>n \<in> set (notes_table b). note_id n \<le> last_rowid b)"

section \<open>Invariants and example data\<close>

text \<open>The armed timers of reminder \<open>i\<close>.\<close>

definition armed_for :: "nat \<Rightarrow> sched \<Rightarrow> job list" where
  "armed_for i s = filter (\<lambda>j. note_id (job_note j) = i) (armed s)"

text \<open>
  The scheduler is consistent when every armed job is the one its reminder id is
  registered to and no other id is registered to it, job identities are pairwise
  different, and every identity in use is below the next one to be handed out.
\<close>

definition sched_ok :: "sched \<Rightarrow> bool" where
  "sched_ok s =
     ((\<forall>j \<in> set (armed s). \<forall>i. (scheduledJobs s i = Some (job_handle j)) = (i = note_id (job_note j)))
      \<and> distinct (map job_handle (armed s @ awaiting s))
      \<and> (\<forall>j \<in> set (armed s @ awaiting s). job_handle j < next_job s)
      \<and> (\<forall>i h. scheduledJobs s i = Some h \<longrightarrow> h < next_job s))"

text \<open>The rows that pass the guards of \<^verbatim>\<open>scheduleNoteJob\<close> at the instant \<open>now\<close>.\<close>

definition arms :: "instant \<Rightarrow> note_row \<Rightarrow> bool" where
  "arms now n = (case reminder_at n of Some (Iso w) \<Rightarrow> \<not> w < now | _ \<Rightarrow> False)"

text \<open>The live expiry timers of chat \<open>c\<close>.\<close>

definition timeouts_for :: "int \<Rightarrow> sess \<Rightarrow> timeout list" where
  "timeouts_for c s = filter (\<lambda>t. timeout_chat t = c) (timeouts s)"

text \<open>
  The session maps are consistent when every live timer is the one its chat is
  registered to and no other chat is registered to it, timer handles are pairwise
  different and below the next one to be handed out, a chat has a session exactly when
  it has a registered timer, and every registered timer is live.
\<close>

definition sess_ok :: "sess \<Rightarrow> bool" where
  "sess_ok s =
     ((\<forall>t \<in> set (timeouts s). \<forall>c. (stateTimeouts s c = Some (timeout_handle t)) = (c = timeout_chat t))
      \<and> distinct (map timeout_handle (timeouts s))
      \<and> (\<forall>t \<in> set (timeouts s). timeout_handle t < next_timeout s)
      \<and> (\<forall>c h. stateTimeouts s c = Some h \<longrightarrow> h < next_timeout s)
      \<and> (\<forall>c. (userState s c = None) = (stateTimeouts s c = None))
      \<and> (\<forall>c h. stateTimeouts s c = Some h \<longrightarrow> h \<in> timeout_handle ` set (timeouts s)))"

text \<open>Rows used in the examples.\<close>

definition note1 :: "stored_time option \<Rightarrow> note_row" where
  "note1 at = \<lparr>note_id = 1, chat_id = 5, note_text = ''rapat'', reminder_at = at,
               reminded = False, status = ''pending''\<rparr>"

definition note2 :: "stored_time option \<Rightarrow> note_row" where
  "note2 at = \<lparr>note_id = 2, chat_id = 5, note_text = ''obat'', reminder_at = at,
               reminded = False, status = ''pending''\<rparr>"

definition example_rows :: "note_row list" where
  "example_rows =
     [note1 (Some (Iso 500)),
      note2 (Some (Iso 50)),
      \<lparr>note_id = 3, chat_id = 6, note_text = ''lama'', reminder_at = Some (Iso 900),
       reminded = True, status = ''done''\<rparr>,
      \<lparr>note_id = 4, chat_id = 6, note_text = ''tanpa waktu'', reminder_at = None,
       reminded = False, status = ''pending''\<rparr>]"


text \<open>
  Observers and example states: a chrono that recognises nothing, so that only the hour
  pattern resolves; the session of a chat; the stored times; the times of the armed
  jobs; a chat that has just been asked for the time at step 2, one that has been asked
  to confirm 09:00 for tomorrow, one that is editing the time of reminder 1, a
  process with one reminder and no session, and one where reminder 1 is armed for the
  instant 100 while its chat is editing its time; the armed jobs of a reminder as pairs
  of job identity and time.
\<close>

definition no_chrono :: "instant \<Rightarrow> string \<Rightarrow> instant option" where
  "no_chrono now text = None"

definition session_of :: "int \<Rightarrow> bot \<Rightarrow> session option" where
  "session_of c b = userState (sess b) c"

definition saved_times :: "bot \<Rightarrow> stored_time option list" where
  "saved_times b = map reminder_at (notes_table b)"

definition armed_times :: "bot \<Rightarrow> instant list" where
  "armed_times b = map fire_at (armed (sched b))"

definition asked_step2 :: bot where
  "asked_step2 = bot0\<lparr>sess := setState 86360000 7 (CreateReminder 2 (Some ''minum obat'')) sess0\<rparr>"

definition asked_confirm :: bot where
  "asked_confirm = bot0\<lparr>sess := setState 36000000 7 (ConfirmNext None ''minum obat'' (formatHHmm 32400000)) sess0\<rparr>"

definition editing_time :: bot where
  "editing_time = bot0\<lparr>notes_table := [note1 (Some (Iso 500000000))], last_rowid := 1,
                       sess := setState 35000000 5 (EditNoteTime 1) sess0\<rparr>"

definition idle :: bot where
  "idle = bot0\<lparr>notes_table := [note1 (Some (Iso 500000000))], last_rowid := 1\<rparr>"

definition editing_armed :: bot where
  "editing_armed = bot0\<lparr>notes_table := [note1 (Some (Iso 100))], last_rowid := 1,
                        sched := scheduleNoteJob 0 (Some (note1 (Some (Iso 100)))) sched0,
                        sess := setState 50 5 (EditNoteTime 1) sess0\<rparr>"

definition armed_jobs_of :: "nat \<Rightarrow> bot \<Rightarrow> (nat \<times> instant) list" where
  "armed_jobs_of i b = map (\<lambda>j. (job_handle j, fire_at j)) (armed_for i (sched b))"

section \<open>Properties of the temporal resolver\<close>

lemmas regex_defs =
  matchHere_def afterKeyword_def lit_def toLowerCase_def lowerChar_def isUpper_def
  hourDigits_def isDigit_def isSpace_def minuteGroup_def meridiemGroup_def isWord_def
  isLower_def containsHariIni_def Number_def digitVal_def trim_def

lemmas time_defs =
  set_hour_minute_def startOfDay_def day_ms_def hour_ms_def minute_ms_def add_day_def
  hour_of_def minute_of_def

lemma meridiemGroup_vocabulary:
  "meridiemGroup s = Some w \<Longrightarrow>
     toLowerCase w \<in> {''pagi'', ''siang'', ''sore'', ''malam'', ''am'', ''pm''}"
  by (auto simp: meridiemGroup_def lit_def split: if_splits)

lemma matchHere_vocabulary:
  "matchHere s = Some m \<Longrightarrow> m5 m = Some w \<Longrightarrow>
     toLowerCase w \<in> {''pagi'', ''siang'', ''sore'', ''malam'', ''am'', ''pm''}"
  by (auto simp: matchHere_def split: option.splits prod.splits dest: meridiemGroup_vocabulary)

lemma matchHour_vocabulary:
  "matchHour s = Some m \<Longrightarrow> m5 m = Some w \<Longrightarrow>
     toLowerCase w \<in> {''pagi'', ''siang'', ''sore'', ''malam'', ''am'', ''pm''}"
  by (induction s) (auto split: option.splits dest: matchHere_vocabulary)

text \<open>The code's hour arithmetic is the specification's table, on every match.\<close>

lemma extractHour_table:
  assumes "matchHour text = Some m"
  shows "extractHourPreferToday now text =
           Some (set_hour_minute now
                   (spec_hour24 (spec_meridiem (m5 m)) (Number (m2 m))) (spec_minute (m4 m)))"
proof (cases "m5 m")
  case None
  with assms show ?thesis
    by (simp add: extractHourPreferToday_def spec_meridiem_def spec_minute_def
        split: option.splits)
next
  case (Some w)
  have voc: "toLowerCase w \<in> {''pagi'', ''siang'', ''sore'', ''malam'', ''am'', ''pm''}"
    by (rule matchHour_vocabulary[OF assms Some])
  then have "toLowerCase w \<noteq> []"
    by auto
  with voc assms Some show ?thesis
    by (auto simp add: extractHourPreferToday_def spec_meridiem_def spec_minute_def
        meridiemToken_def Let_def split: option.splits)
qed

text \<open>
  With an hour below 24 and a minute below 60 the candidate lies on the calendar day of
  \<open>now\<close> and shows that hour and minute.
\<close>

lemma day_offset_mod:
  assumes "0 \<le> x" "x < 86400000"
  shows "((now::int) - now mod 86400000 + x) mod 86400000 = x"
proof -
  have "now - now mod 86400000 = 86400000 * (now div 86400000)"
    by (rule minus_mod_eq_mult_div)
  then have "(now - now mod 86400000 + x) mod 86400000 = x mod 86400000"
    by (simp only: add.commute[of _ x] mod_mult_self2)
  then show ?thesis using assms by simp
qed

lemma hour_offset_mod:
  "((now::int) - now mod 86400000 + (h * 3600000 + mi * 60000)) mod 3600000
     = (mi * 60000) mod 3600000"
proof -
  have a: "now - now mod 86400000 = 86400000 * (now div 86400000)"
    by (rule minus_mod_eq_mult_div)
  have b: "86400000 * (now div 86400000) + (h * 3600000 + mi * 60000)
             = mi * 60000 + (24 * (now div 86400000) + h) * 3600000"
    by (simp add: algebra_simps)
  show ?thesis unfolding a b by (rule mod_mult_self1)
qed

lemma set_hour_minute_today:
  assumes "0 \<le> h" "h < 24" "0 \<le> mi" "mi < 60"
  shows "startOfDay (set_hour_minute now h mi) = startOfDay now"
    and "hour_of (set_hour_minute now h mi) = h"
    and "minute_of (set_hour_minute now h mi) = mi"
proof -
  define x where "x = h * 3600000 + mi * 60000"
  have x: "0 \<le> x" "x < 86400000"
    using assms by (auto simp: x_def)
  have s: "set_hour_minute now h mi = now - now mod 86400000 + x"
    by (simp add: set_hour_minute_def startOfDay_def day_ms_def hour_ms_def minute_ms_def x_def)
  have d: "(now - now mod 86400000 + x) mod 86400000 = x"
    by (rule day_offset_mod[OF x])
  show "startOfDay (set_hour_minute now h mi) = startOfDay now"
    unfolding s startOfDay_def day_ms_def d by simp
  have "x div 3600000 = h"
    using assms unfolding x_def by simp
  then show "hour_of (set_hour_minute now h mi) = h"
    unfolding s hour_of_def day_ms_def hour_ms_def d .
  have "(mi * 60000) mod 3600000 div 60000 = mi"
    using assms by simp
  then show "minute_of (set_hour_minute now h mi) = mi"
    unfolding s minute_of_def hour_ms_def minute_ms_def x_def hour_offset_mod .
qed

lemma startOfDay_on_day:
  assumes "0 \<le> x" "x < 86400000"
  shows "startOfDay (d * 86400000 + x) = d * 86400000"
proof -
  have "(d * 86400000 + x) mod 86400000 = x mod 86400000"
    by (simp only: add.commute[of _ x] mod_mult_self1)
  then show ?thesis using assms by (simp add: startOfDay_def day_ms_def)
qed



text \<open>The rows of the table on concrete phrases, through the regular expression.\<close>

lemma extractHour_examples:
  "extractHourPreferToday 0 ''jam 12 pagi'' = Some 0"
  "extractHourPreferToday 0 ''jam 11 siang'' = Some (23 * 3600000)"
  "extractHourPreferToday 0 ''jam 3 sore'' = Some (15 * 3600000)"
  "extractHourPreferToday 0 ''jam 12 malam'' = Some (12 * 3600000)"
  "extractHourPreferToday 0 ''jam 1 pm'' = Some (13 * 3600000)"
  "extractHourPreferToday 0 ''jam 12 am'' = Some 0"
  "extractHourPreferToday 0 ''jam 9'' = Some (9 * 3600000)"
  "extractHourPreferToday 0 ''jam 9:30'' = Some (9 * 3600000 + 30 * 60000)"
  "extractHourPreferToday 0 ''pinjam 25 buku'' = Some (25 * 3600000)"
  "extractHourPreferToday 0 ''besok sore'' = None"
  by code_simp+

text \<open>
  The no-break space is white space for the pattern and for \<^verbatim>\<open>trim\<close>: "jam 9" and "malam"
  joined by one resolve to 21:00, "jam" and "9" joined by one match, and a reply "ya"
  followed by one is affirmative.
\<close>

lemma no_break_space_examples:
  "extractHourPreferToday 0 (''jam 9'' @ [CHR 0xA0] @ ''malam'') = Some (21 * 3600000)"
  "matchHour (''jam'' @ [CHR 0xA0] @ ''9'') = Some \<lparr>m2 = ''9'', m4 = None, m5 = None\<rparr>"
  "parseIndoPrefer no_chrono 36000000 (''jam 9'' @ [CHR 0xA0] @ ''malam'') = Moment (21 * 3600000)"
  "affirmative (trim (''ya'' @ [CHR 0xA0]))"
  "trim ([CHR 0xA0] @ '' jam 9 '' @ [CHR 0xA0]) = ''jam 9''"
  by code_simp+

text \<open>
  Claim C3. For every phrase with an explicit hour pattern and every reference time
  \<open>now\<close>, \<^verbatim>\<open>parseIndoPrefer\<close> returns the candidate (the day of \<open>now\<close> at the resolved
  hour and minute) when the candidate is strictly after \<open>now\<close>; otherwise, when the phrase
  has the marker "hari ini" or "today", it returns the signal time_passed_today carrying
  the candidate; otherwise it returns the candidate one day later. On any day \<open>d\<close>:
  "jam 9 pagi" at 08:00 gives 09:00 of that day; at 10:00 it gives 09:00 of the next
  day; "hari ini jam 9 pagi" and "jam 9 pagi today" at 10:00 give the signal with the
  candidate 09:00 of that day.
\<close>

theorem parseIndoPrefer_hour_pattern:
  "(matchHour text = Some m \<longrightarrow>
      parseIndoPrefer chrono now text =
        (let candidate = startOfDay now
                         + spec_hour24 (spec_meridiem (m5 m)) (Number (m2 m)) * 3600000
                         + (case m4 m of None \<Rightarrow> 0 | Some ds \<Rightarrow> Number ds) * 60000
         in if now < candidate then Moment candidate
            else if containsHariIni text then TimePassedToday candidate
            else Moment (candidate + 86400000)))
   \<and> parseIndoPrefer chrono (d * 86400000 + 8 * 3600000) ''jam 9 pagi''
       = Moment (d * 86400000 + 9 * 3600000)
   \<and> parseIndoPrefer chrono (d * 86400000 + 10 * 3600000) ''jam 9 pagi''
       = Moment ((d + 1) * 86400000 + 9 * 3600000)
   \<and> parseIndoPrefer chrono (d * 86400000 + 10 * 3600000) ''hari ini jam 9 pagi''
       = TimePassedToday (d * 86400000 + 9 * 3600000)
   \<and> parseIndoPrefer chrono (d * 86400000 + 10 * 3600000) ''jam 9 pagi today''
       = TimePassedToday (d * 86400000 + 9 * 3600000)"
proof -
  have gen: "parseIndoPrefer chrono now phrase =
        (let candidate = startOfDay now
                         + spec_hour24 (spec_meridiem (m5 m)) (Number (m2 m)) * 3600000
                         + (case m4 m of None \<Rightarrow> 0 | Some ds \<Rightarrow> Number ds) * 60000
         in if now < candidate then Moment candidate
            else if containsHariIni phrase then TimePassedToday candidate
            else Moment (candidate + 86400000))"
    if "matchHour phrase = Some m" for phrase m now
    using extractHour_table[OF that, of now]
    by (simp add: parseIndoPrefer_def Let_def set_hour_minute_def hour_ms_def minute_ms_def
        spec_minute_def add_day_def day_ms_def)
  have m1: "matchHour ''jam 9 pagi'' = Some \<lparr>m2 = ''9'', m4 = None, m5 = Some ''pagi''\<rparr>"
    and m2: "matchHour ''hari ini jam 9 pagi'' = Some \<lparr>m2 = ''9'', m4 = None, m5 = Some ''pagi''\<rparr>"
    and m3: "matchHour ''jam 9 pagi today'' = Some \<lparr>m2 = ''9'', m4 = None, m5 = Some ''pagi''\<rparr>"
    by code_simp+
  have c1: "\<not> containsHariIni ''jam 9 pagi''"
    and c2: "containsHariIni ''hari ini jam 9 pagi''"
    and c3: "containsHariIni ''jam 9 pagi today''"
    by code_simp+
  have h: "spec_hour24 (spec_meridiem (Some ''pagi'')) (Number ''9'') = 9"
    by code_simp
  have s8: "startOfDay (d * 86400000 + 28800000) = d * 86400000"
    and s10: "startOfDay (d * 86400000 + 36000000) = d * 86400000"
    by (simp_all add: startOfDay_on_day)
  show ?thesis
  proof (intro conjI impI)
    show "parseIndoPrefer chrono (d * 86400000 + 8 * 3600000) ''jam 9 pagi''
            = Moment (d * 86400000 + 9 * 3600000)"
      unfolding gen[OF m1] by (simp add: h s8 Let_def)
    show "parseIndoPrefer chrono (d * 86400000 + 10 * 3600000) ''jam 9 pagi''
            = Moment ((d + 1) * 86400000 + 9 * 3600000)"
      unfolding gen[OF m1] by (simp add: h s10 c1 Let_def)
    show "parseIndoPrefer chrono (d * 86400000 + 10 * 3600000) ''hari ini jam 9 pagi''
            = TimePassedToday (d * 86400000 + 9 * 3600000)"
      unfolding gen[OF m2] by (simp add: h s10 c2 Let_def)
    show "parseIndoPrefer chrono (d * 86400000 + 10 * 3600000) ''jam 9 pagi today''
            = TimePassedToday (d * 86400000 + 9 * 3600000)"
      unfolding gen[OF m3] by (simp add: h s10 c3 Let_def)
  qed (rule gen)
qed

theorem parseIndoPrefer_hour_pattern_witness:
  "matchHour ''ingatkan rapat HARI INI pukul 14.30'' = Some \<lparr>m2 = ''14'', m4 = Some ''30'', m5 = None\<rparr>
   \<and> parseIndoPrefer (\<lambda>_ _. None) (3 * 86400000 + 15 * 3600000) ''ingatkan rapat HARI INI pukul 14.30''
       = TimePassedToday (3 * 86400000 + 14 * 3600000 + 30 * 60000)"
proof -
  have m: "matchHour ''ingatkan rapat HARI INI pukul 14.30'' = Some \<lparr>m2 = ''14'', m4 = Some ''30'', m5 = None\<rparr>"
    by code_simp
  have c: "containsHariIni ''ingatkan rapat HARI INI pukul 14.30''"
    by code_simp
  have h: "spec_hour24 (spec_meridiem None) (Number ''14'') = 14" "Number ''30'' = 30"
    by code_simp+
  have s: "startOfDay 313200000 = 259200000"
    by (simp add: startOfDay_def day_ms_def)
  note g = parseIndoPrefer_hour_pattern
          [of "''ingatkan rapat HARI INI pukul 14.30''"
              "\<lparr>m2 = ''14'', m4 = Some ''30'', m5 = None\<rparr>" "\<lambda>_ _. None"
              "3 * 86400000 + 15 * 3600000" 0,
           THEN conjunct1, rule_format, OF m]
  show ?thesis
  proof
    show "parseIndoPrefer (\<lambda>_ _. None) (3 * 86400000 + 15 * 3600000) ''ingatkan rapat HARI INI pukul 14.30''
            = TimePassedToday (3 * 86400000 + 14 * 3600000 + 30 * 60000)"
      unfolding g by (simp add: c h s Let_def)
  qed (rule m)
qed

section \<open>Properties of the scheduler\<close>

lemma sched_ok_sched0: "sched_ok sched0"
  by (simp add: sched_ok_def sched0_def)

lemma sched_ok_registered:
  "sched_ok s \<Longrightarrow> j \<in> set (armed s) \<Longrightarrow> scheduledJobs s (note_id (job_note j)) = Some (job_handle j)"
  by (simp add: sched_ok_def)

lemma sched_ok_key:
  "sched_ok s \<Longrightarrow> j \<in> set (armed s) \<Longrightarrow> scheduledJobs s i = Some (job_handle j)
     \<Longrightarrow> i = note_id (job_note j)"
  by (simp add: sched_ok_def)

lemma filter_same_handle:
  assumes "distinct (map job_handle js)"
  shows "length (filter (\<lambda>j. job_handle j = h) js) \<le> 1"
  using assms by (induction js) (auto simp: filter_empty_conv image_iff)

lemma at_most_one_armed:
  assumes "sched_ok s"
  shows "length (armed_for i s) \<le> 1"
proof (cases "scheduledJobs s i")
  case None
  with assms have "armed_for i s = []"
    by (auto simp: armed_for_def filter_empty_conv dest: sched_ok_registered)
  then show ?thesis by simp
next
  case (Some h)
  with assms have "armed_for i s = filter (\<lambda>j. note_id (job_note j) = i) (filter (\<lambda>j. job_handle j = h) (armed s))"
    unfolding armed_for_def filter_filter
    by (intro filter_cong) (auto dest: sched_ok_registered)
  moreover have "length (filter (\<lambda>j. job_handle j = h) (armed s)) \<le> 1"
    using assms by (intro filter_same_handle) (simp add: sched_ok_def)
  ultimately show ?thesis
    by (metis length_filter_le order_trans)
qed

lemma scheduleNoteJob_unchanged:
  "arg = None \<or> (\<exists>n. arg = Some n \<and> (reminder_at n = None \<or> reminder_at n = Some Unparsable
      \<or> (\<exists>w. reminder_at n = Some (Iso w) \<and> w < now))) \<Longrightarrow> scheduleNoteJob now arg s = s"
  by (auto simp: scheduleNoteJob_def)

lemma scheduleNoteJob_arm:
  assumes "reminder_at n = Some (Iso w)" "\<not> w < now"
  shows "scheduleNoteJob now (Some n) s =
           (cancelNoteJob (note_id n) s)
             \<lparr>armed := armed (cancelNoteJob (note_id n) s) @ [\<lparr>job_handle = next_job s, fire_at = w, job_note = n\<rparr>],
              next_job := Suc (next_job s),
              scheduledJobs := (scheduledJobs s)(note_id n \<mapsto> next_job s)\<rparr>"
  using assms by (auto simp: scheduleNoteJob_def cancelNoteJob_def cancel_def Let_def split: option.splits)

lemma cancelNoteJob_fields:
  "next_job (cancelNoteJob i s) = next_job s"
  "awaiting (cancelNoteJob i s) = awaiting s"
  "scheduledJobs (cancelNoteJob i s) = (scheduledJobs s)(i := None)"
  "set (armed (cancelNoteJob i s)) \<subseteq> set (armed s)"
  by (auto simp: cancelNoteJob_def cancel_def split: option.splits)

lemma cancelNoteJob_armed:
  assumes "sched_ok s"
  shows "armed (cancelNoteJob i s) = filter (\<lambda>j. note_id (job_note j) \<noteq> i) (armed s)"
proof (cases "scheduledJobs s i")
  case None
  with assms have "\<forall>j\<in>set (armed s). note_id (job_note j) \<noteq> i"
    by (auto dest: sched_ok_registered)
  then have "filter (\<lambda>j. note_id (job_note j) \<noteq> i) (armed s) = armed s"
    by (simp add: filter_id_conv)
  with None show ?thesis by (simp add: cancelNoteJob_def)
next
  case (Some h)
  with assms have "\<forall>j\<in>set (armed s). (job_handle j \<noteq> h) = (note_id (job_note j) \<noteq> i)"
    by (auto dest: sched_ok_registered sched_ok_key)
  then have "filter (\<lambda>j. job_handle j \<noteq> h) (armed s) = filter (\<lambda>j. note_id (job_note j) \<noteq> i) (armed s)"
    by (intro filter_cong) auto
  with Some show ?thesis by (simp add: cancelNoteJob_def cancel_def)
qed

lemma cancelNoteJob_ok:
  assumes "sched_ok s"
  shows "sched_ok (cancelNoteJob i s)"
  using assms unfolding sched_ok_def cancelNoteJob_fields cancelNoteJob_armed[OF assms]
  by (auto simp: distinct_map_filter)

lemma scheduleNoteJob_fields:
  assumes "reminder_at n = Some (Iso w)" "\<not> w < now" "sched_ok s"
  shows "armed (scheduleNoteJob now (Some n) s) =
           filter (\<lambda>j. note_id (job_note j) \<noteq> note_id n) (armed s)
             @ [\<lparr>job_handle = next_job s, fire_at = w, job_note = n\<rparr>]"
    and "scheduledJobs (scheduleNoteJob now (Some n) s) = (scheduledJobs s)(note_id n \<mapsto> next_job s)"
    and "next_job (scheduleNoteJob now (Some n) s) = Suc (next_job s)"
    and "awaiting (scheduleNoteJob now (Some n) s) = awaiting s"
  unfolding scheduleNoteJob_arm[OF assms(1,2)]
  by (simp_all add: cancelNoteJob_armed[OF assms(3)] cancelNoteJob_fields)

lemma scheduleNoteJob_ok:
  assumes "sched_ok s"
  shows "sched_ok (scheduleNoteJob now arg s)"
proof (cases "\<exists>n w. arg = Some n \<and> reminder_at n = Some (Iso w) \<and> \<not> w < now")
  case False
  then have "scheduleNoteJob now arg s = s"
    by (intro scheduleNoteJob_unchanged) (metis not_None_eq stored_time.exhaust)
  with assms show ?thesis by simp
next
  case True
  then obtain n w where a: "arg = Some n" "reminder_at n = Some (Iso w)" "\<not> w < now"
    by blast
  have lt: "\<forall>j\<in>set (armed s) \<union> set (awaiting s). job_handle j < next_job s"
    and reg: "\<forall>i h. scheduledJobs s i = Some h \<longrightarrow> h < next_job s"
    and key: "\<forall>j \<in> set (armed s). \<forall>i. (scheduledJobs s i = Some (job_handle j)) = (i = note_id (job_note j))"
    and dist: "distinct (map job_handle (armed s @ awaiting s))"
    using assms by (auto simp: sched_ok_def)
  have fresh: "next_job s \<notin> job_handle ` (set (armed s) \<union> set (awaiting s))"
    using lt by auto
  have nreg: "\<And>k. scheduledJobs s k \<noteq> Some (next_job s)"
    using reg by (metis less_irrefl)
  note f = scheduleNoteJob_fields[OF a(2,3) assms]
  show ?thesis
    unfolding a(1) sched_ok_def f
  proof (intro conjI)
    show "\<forall>j\<in>set (filter (\<lambda>j. note_id (job_note j) \<noteq> note_id n) (armed s)
                    @ [\<lparr>job_handle = next_job s, fire_at = w, job_note = n\<rparr>]).
            \<forall>i. (((scheduledJobs s)(note_id n \<mapsto> next_job s)) i = Some (job_handle j))
                 = (i = note_id (job_note j))"
      using key fresh nreg by auto
    show "distinct (map job_handle
            ((filter (\<lambda>j. note_id (job_note j) \<noteq> note_id n) (armed s)
                @ [\<lparr>job_handle = next_job s, fire_at = w, job_note = n\<rparr>]) @ awaiting s))"
      using dist fresh by (auto simp: distinct_map_filter)
    show "\<forall>j\<in>set ((filter (\<lambda>j. note_id (job_note j) \<noteq> note_id n) (armed s)
                     @ [\<lparr>job_handle = next_job s, fire_at = w, job_note = n\<rparr>]) @ awaiting s).
            job_handle j < Suc (next_job s)"
      using lt by (auto simp: less_Suc_eq)
    show "\<forall>i h. ((scheduledJobs s)(note_id n \<mapsto> next_job s)) i = Some h \<longrightarrow> h < Suc (next_job s)"
      using reg by (auto simp: less_Suc_eq)
  qed
qed

text \<open>Arming with a date that passes the guard replaces the timer of the id.\<close>

lemma scheduleNoteJob_replaces:
  assumes "reminder_at n = Some (Iso w)" "\<not> w < now" "sched_ok s"
  shows "armed_for (note_id n) (scheduleNoteJob now (Some n) s)
           = [\<lparr>job_handle = next_job s, fire_at = w, job_note = n\<rparr>]"
    and "scheduledJobs (scheduleNoteJob now (Some n) s) (note_id n) = Some (next_job s)"
    and "scheduledJobs s (note_id n) = Some h \<Longrightarrow>
           h \<notin> job_handle ` set (armed (scheduleNoteJob now (Some n) s))"
proof -
  note f = scheduleNoteJob_fields[OF assms]
  show "armed_for (note_id n) (scheduleNoteJob now (Some n) s)
           = [\<lparr>job_handle = next_job s, fire_at = w, job_note = n\<rparr>]"
    unfolding armed_for_def f by simp
  show "scheduledJobs (scheduleNoteJob now (Some n) s) (note_id n) = Some (next_job s)"
    unfolding f by simp
  assume h: "scheduledJobs s (note_id n) = Some h"
  then have "h < next_job s"
    using assms(3) by (auto simp: sched_ok_def)
  moreover have "\<forall>j\<in>set (armed s). job_handle j = h \<longrightarrow> note_id (job_note j) = note_id n"
    using h assms(3) by (auto dest: sched_ok_key)
  ultimately show "h \<notin> job_handle ` set (armed (scheduleNoteJob now (Some n) s))"
    unfolding f by auto
qed

lemma timer_fires_ok:
  assumes "sched_ok s"
  shows "sched_ok (timer_fires h s)"
proof (cases "find (\<lambda>j. job_handle j = h) (armed s)")
  case None
  with assms show ?thesis by (simp add: timer_fires_def)
next
  case (Some j)
  then have j: "j \<in> set (armed s)" "job_handle j = h"
    by (auto simp: find_Some_iff)
  have "sched_ok (s\<lparr>armed := filter (\<lambda>j. job_handle j \<noteq> h) (armed s), awaiting := awaiting s @ [j]\<rparr>)"
    using assms j unfolding sched_ok_def
    by (auto simp: distinct_map_filter)
  with Some show ?thesis by (simp add: timer_fires_def)
qed

lemma find_by_handle:
  assumes "distinct (map job_handle js)" "j \<in> set js"
  shows "find (\<lambda>k. job_handle k = job_handle j) js = Some j"
  using assms by (induction js) (auto simp: image_iff)

lemma find_none_handle:
  "h \<notin> job_handle ` set js \<Longrightarrow> find (\<lambda>k. job_handle k = h) js = None"
  by (induction js) auto

lemma find_snoc_handle:
  "job_handle j \<notin> job_handle ` set js \<Longrightarrow> find (\<lambda>k. job_handle k = job_handle j) (js @ [j]) = Some j"
  by (induction js) auto


text \<open>
  Claim C4, as amended. For every reminder whose timestamp is strictly before the clock
  read of the call, \<^verbatim>\<open>scheduleNoteJob\<close> is a silent no-op: it returns the scheduler as it
  was, so no timer is stored, none is cancelled, and no callback can fire for that call.
\<close>

theorem scheduleNoteJob_skips_past:
  assumes "reminder_at n = Some (Iso w)" and "w < now"
  shows "scheduleNoteJob now (Some n) s = s"
  using assms by (simp add: scheduleNoteJob_def)

theorem scheduleNoteJob_skips_past_witness:
  "reminder_at (note1 (Some (Iso 999))) = Some (Iso 999) \<and> (999::int) < 1000
   \<and> scheduleNoteJob 1000 (Some (note1 (Some (Iso 999)))) sched0 = sched0"
  using scheduleNoteJob_skips_past[of "note1 (Some (Iso 999))" 999 1000 sched0]
  by (simp add: note1_def)


text \<open>
  The claim as stated also covers a timestamp equal to the clock read, which is not
  strictly in the future. The guard skips only what is before \<open>now\<close>: at equality the
  job is armed and registered.
\<close>

theorem scheduleNoteJob_at_now_arms:
  "\<not> (1000::int) < 1000
   \<and> armed (scheduleNoteJob 1000 (Some (note1 (Some (Iso 1000)))) sched0)
       = [\<lparr>job_handle = 0, fire_at = 1000, job_note = note1 (Some (Iso 1000))\<rparr>]
   \<and> scheduledJobs (scheduleNoteJob 1000 (Some (note1 (Some (Iso 1000)))) sched0) 1 = Some 0
   \<and> scheduleNoteJob 1000 (Some (note1 (Some (Iso 1000)))) sched0 \<noteq> sched0"
proof -
  have a: "armed (scheduleNoteJob 1000 (Some (note1 (Some (Iso 1000)))) sched0)
       = [\<lparr>job_handle = 0, fire_at = 1000, job_note = note1 (Some (Iso 1000))\<rparr>]"
    by (simp add: scheduleNoteJob_def note1_def sched0_def Let_def)
  have b: "scheduledJobs (scheduleNoteJob 1000 (Some (note1 (Some (Iso 1000)))) sched0) 1 = Some 0"
    by (simp add: scheduleNoteJob_def note1_def sched0_def Let_def)
  have "armed sched0 = []"
    by (simp add: sched0_def)
  with a have "scheduleNoteJob 1000 (Some (note1 (Some (Iso 1000)))) sched0 \<noteq> sched0"
    by (metis list.distinct(1))
  with a b show ?thesis by simp
qed


text \<open>
  Claim C5. When an armed timer fires, its callback runs once: the job leaves the armed
  set when it goes off, and once the callback has resumed the job is neither armed nor
  awaiting, so neither step can happen again for it. The callback removes the registry
  entry of the reminder id whatever the outcome of the delivery; a failure is caught and
  logged, the callback returns normally, and no job is armed anew, so the delivery is
  not retried. The message is delivered at most once.
\<close>

theorem fire_callback_once:
  assumes "distinct (map job_handle (armed (sched b) @ awaiting (sched b)))"
    and "j \<in> set (armed (sched b))"
  shows "let h = job_handle j;
             b1 = b\<lparr>sched := timer_fires h (sched b)\<rparr>;
             b2 = callback_resumes h d b1
         in find (\<lambda>k. job_handle k = h) (awaiting (sched b1)) = Some j
          \<and> scheduledJobs (sched b2) (note_id (job_note j)) = None
          \<and> armed (sched b2) = filter (\<lambda>k. job_handle k \<noteq> h) (armed (sched b))
          \<and> awaiting (sched b2) = awaiting (sched b)
          \<and> h \<notin> job_handle ` set (armed (sched b2) @ awaiting (sched b2))
          \<and> timer_fires h (sched b2) = sched b2
          \<and> callback_resumes h d' b2 = b2
          \<and> outbox b2 = outbox b @ (if d = SendRejected then []
                                     else [(chat_id (job_note j), ReminderMsg (note_text (job_note j)))])
          \<and> errlog b2 = errlog b @ (case d of
                                       Delivered \<Rightarrow> []
                                     | SendRejected \<Rightarrow> [''Gagal mengirim reminder: sendMessage'']
                                     | UpdateThrew \<Rightarrow> [''Gagal mengirim reminder: update''])
          \<and> notes_table b2 = (if d = Delivered then markReminded (note_id (job_note j)) (notes_table b)
                               else notes_table b)"
proof -
  define h where "h = job_handle j"
  define b1 where "b1 = b\<lparr>sched := timer_fires h (sched b)\<rparr>"
  define b2 where "b2 = callback_resumes h d b1"
  have dist: "distinct (map job_handle (armed (sched b)))" "distinct (map job_handle (awaiting (sched b)))"
    and disj: "job_handle ` set (armed (sched b)) \<inter> job_handle ` set (awaiting (sched b)) = {}"
    using assms(1) by auto
  have fa: "find (\<lambda>k. job_handle k = h) (armed (sched b)) = Some j"
    unfolding h_def by (rule find_by_handle[OF dist(1) assms(2)])
  have hw: "h \<notin> job_handle ` set (awaiting (sched b))"
    using disj assms(2) unfolding h_def by blast
  have s1: "sched b1 = (sched b)\<lparr>armed := filter (\<lambda>k. job_handle k \<noteq> h) (armed (sched b)),
                                 awaiting := awaiting (sched b) @ [j]\<rparr>"
    by (simp add: b1_def timer_fires_def fa)
  have fw: "find (\<lambda>k. job_handle k = h) (awaiting (sched b1)) = Some j"
    unfolding s1 using hw by (simp add: find_snoc_handle h_def)
  have keep: "filter (\<lambda>k. job_handle k \<noteq> h) (awaiting (sched b)) = awaiting (sched b)"
    using hw by (auto simp: filter_id_conv)
  have r: "sched b2 = (sched b1)\<lparr>awaiting := awaiting (sched b),
                                 scheduledJobs := (scheduledJobs (sched b1))(note_id (job_note j) := None)\<rparr>"
    unfolding b2_def callback_resumes_def fw
    by (cases d) (simp_all add: callback_try_def send_def Let_def s1 keep[unfolded h_def] h_def)
  have o: "outbox b2 = outbox b @ (if d = SendRejected then []
                                     else [(chat_id (job_note j), ReminderMsg (note_text (job_note j)))])"
    unfolding b2_def callback_resumes_def fw
    by (cases d) (simp_all add: callback_try_def send_def Let_def b1_def)
  have e: "errlog b2 = errlog b @ (case d of
                                       Delivered \<Rightarrow> []
                                     | SendRejected \<Rightarrow> [''Gagal mengirim reminder: sendMessage'']
                                     | UpdateThrew \<Rightarrow> [''Gagal mengirim reminder: update''])"
    unfolding b2_def callback_resumes_def fw
    by (cases d) (simp_all add: callback_try_def send_def Let_def b1_def)
  have t: "notes_table b2 = (if d = Delivered then markReminded (note_id (job_note j)) (notes_table b)
                               else notes_table b)"
    unfolding b2_def callback_resumes_def fw
    by (cases d) (simp_all add: callback_try_def send_def Let_def b1_def)
  have gone: "h \<notin> job_handle ` set (armed (sched b2) @ awaiting (sched b2))"
    unfolding r s1 using hw by auto
  then have n1: "find (\<lambda>k. job_handle k = h) (armed (sched b2)) = None"
    and n2: "find (\<lambda>k. job_handle k = h) (awaiting (sched b2)) = None"
    by (auto intro: find_none_handle)
  have "timer_fires h (sched b2) = sched b2"
    by (simp add: timer_fires_def n1)
  moreover have "callback_resumes h d' b2 = b2"
    by (simp add: callback_resumes_def n2)
  moreover have "scheduledJobs (sched b2) (note_id (job_note j)) = None"
    unfolding r by simp
  moreover have "armed (sched b2) = filter (\<lambda>k. job_handle k \<noteq> h) (armed (sched b))"
    unfolding r s1 by simp
  moreover have "awaiting (sched b2) = awaiting (sched b)"
    unfolding r by simp
  ultimately show ?thesis
    using fw o e t gone unfolding Let_def h_def[symmetric] b1_def[symmetric] b2_def[symmetric]
    by simp
qed
theorem fire_callback_once_witness:
  "(let b = bot0\<lparr>sched := scheduleNoteJob 0 (Some (note1 (Some (Iso 100)))) sched0\<rparr>;
        j = \<lparr>job_handle = 0, fire_at = 100, job_note = note1 (Some (Iso 100))\<rparr>;
        b2 = callback_resumes 0 SendRejected (b\<lparr>sched := timer_fires 0 (sched b)\<rparr>)
    in distinct (map job_handle (armed (sched b) @ awaiting (sched b)))
       \<and> j \<in> set (armed (sched b))
       \<and> scheduledJobs (sched b2) 1 = None \<and> armed (sched b2) = [] \<and> awaiting (sched b2) = []
       \<and> outbox b2 = [] \<and> errlog b2 = [''Gagal mengirim reminder: sendMessage'']
       \<and> callback_resumes 0 Delivered b2 = b2)"
proof -
  define b where "b = bot0\<lparr>sched := scheduleNoteJob 0 (Some (note1 (Some (Iso 100)))) sched0\<rparr>"
  define j where "j = \<lparr>job_handle = 0, fire_at = 100, job_note = note1 (Some (Iso 100))\<rparr>"
  have a: "armed (sched b) = [j]" "awaiting (sched b) = []" "outbox b = []" "errlog b = []"
    unfolding b_def j_def
    by (simp_all add: scheduleNoteJob_def note1_def sched0_def bot0_def Let_def)
  then have j: "j \<in> set (armed (sched b))"
    and ok: "distinct (map job_handle (armed (sched b) @ awaiting (sched b)))"
    by simp_all
  have h: "job_handle j = 0" "note_id (job_note j) = 1"
    by (simp_all add: j_def note1_def)
  from fire_callback_once[OF ok j, of SendRejected Delivered] ok j
  show ?thesis
    unfolding b_def[symmetric] j_def[symmetric] Let_def by (simp add: h a)
qed


text \<open>
  Claim C1. At most one armed timer should exist per reminder id at any instant. The code
  keeps this as long as the registry is consistent (\<open>at_most_one_armed\<close>,
  \<open>scheduleNoteJob_ok\<close>, \<open>scheduleNoteJob_replaces\<close>), but the fire callback deletes the
  registry entry of its id after the \<^verbatim>\<open>await\<close>, whichever job the entry then belongs to.
  On the calls alone: reminder 1 is armed for 100; its timer goes off and the callback
  waits for the gateway; meanwhile the reminder is re-armed for 200 (job 1 replaces job
  0 in the registry); the callback resumes and deletes the entry of id 1, which is job
  1's; the reminder is re-armed for 300 and, finding no entry, cancels nothing. Jobs 1
  and 2 are then both armed for reminder 1. Through the handlers: the chat is editing
  the time of reminder 1 when its timer goes off; the user sends "jam 9" while the
  callback waits; the callback resumes; the user gives \<^verbatim>\<open>/edit_time 1\<close> again and sends
  "jam 10". The timers for 09:00 and 10:00 are then both armed for reminder 1.
\<close>

theorem reschedule_during_delivery_leaves_two_timers:
  "(let b1 = bot0\<lparr>sched := scheduleNoteJob 0 (Some (note1 (Some (Iso 100)))) sched0\<rparr>;
        b2 = b1\<lparr>sched := timer_fires 0 (sched b1)\<rparr>;
        b3 = b2\<lparr>sched := scheduleNoteJob 100 (Some (note1 (Some (Iso 200)))) (sched b2)\<rparr>;
        b4 = callback_resumes 0 Delivered b3;
        b5 = b4\<lparr>sched := scheduleNoteJob 150 (Some (note1 (Some (Iso 300)))) (sched b4)\<rparr>
    in map job_handle (armed (sched b3)) = [1]
       \<and> scheduledJobs (sched b3) 1 = Some 1
       \<and> scheduledJobs (sched b4) 1 = None
       \<and> map job_handle (armed (sched b4)) = [1]
       \<and> armed_jobs_of 1 b5 = [(1, 200), (2, 300)]
       \<and> length (armed_for 1 (sched b5)) = 2)
   \<and> map_option (armed_jobs_of 1)
        (run no_chrono
           [TimerFires 0,
            Message 110 5 ''jam 9'',
            CallbackResumes 0 Delivered,
            Message 130 5 ''/edit_time 1'',
            EditTimeCommand 130 5 1,
            Message 140 5 ''jam 10'']
           editing_armed)
       = Some [(1, 32400000), (2, 36000000)]"
proof
  show "(let b1 = bot0\<lparr>sched := scheduleNoteJob 0 (Some (note1 (Some (Iso 100)))) sched0\<rparr>;
        b2 = b1\<lparr>sched := timer_fires 0 (sched b1)\<rparr>;
        b3 = b2\<lparr>sched := scheduleNoteJob 100 (Some (note1 (Some (Iso 200)))) (sched b2)\<rparr>;
        b4 = callback_resumes 0 Delivered b3;
        b5 = b4\<lparr>sched := scheduleNoteJob 150 (Some (note1 (Some (Iso 300)))) (sched b4)\<rparr>
    in map job_handle (armed (sched b3)) = [1]
       \<and> scheduledJobs (sched b3) 1 = Some 1
       \<and> scheduledJobs (sched b4) 1 = None
       \<and> map job_handle (armed (sched b4)) = [1]
       \<and> armed_jobs_of 1 b5 = [(1, 200), (2, 300)]
       \<and> length (armed_for 1 (sched b5)) = 2)"
    by (simp add: scheduleNoteJob_def timer_fires_def callback_resumes_def callback_try_def
        send_def markReminded_def cancel_def armed_for_def armed_jobs_of_def note1_def
        sched0_def bot0_def Let_def)
  show "map_option (armed_jobs_of 1)
        (run no_chrono
           [TimerFires 0,
            Message 110 5 ''jam 9'',
            CallbackResumes 0 Delivered,
            Message 130 5 ''/edit_time 1'',
            EditTimeCommand 130 5 1,
            Message 140 5 ''jam 10'']
           editing_armed)
       = Some [(1, 32400000), (2, 36000000)]"
    by code_simp
qed

text \<open>The startup loop, row by row.\<close>

lemma arms_iff: "arms now n = (\<exists>w. reminder_at n = Some (Iso w) \<and> \<not> w < now)"
  by (auto simp: arms_def split: option.splits stored_time.splits)

lemma recover_snoc:
  "foldl (\<lambda>s n. scheduleNoteJob now (Some n) s) s0 (xs @ [x])
     = scheduleNoteJob now (Some x) (foldl (\<lambda>s n. scheduleNoteJob now (Some n) s) s0 xs)"
  by simp

lemma recover_loop:
  assumes "distinct (map note_id xs)"
  shows "sched_ok (foldl (\<lambda>s n. scheduleNoteJob now (Some n) s) sched0 xs)
       \<and> map job_note (armed (foldl (\<lambda>s n. scheduleNoteJob now (Some n) s) sched0 xs))
           = filter (arms now) xs
       \<and> (\<forall>j\<in>set (armed (foldl (\<lambda>s n. scheduleNoteJob now (Some n) s) sched0 xs)).
             reminder_at (job_note j) = Some (Iso (fire_at j)))
       \<and> dom (scheduledJobs (foldl (\<lambda>s n. scheduleNoteJob now (Some n) s) sched0 xs))
           = note_id ` set (filter (arms now) xs)"
  using assms
proof (induction xs rule: rev_induct)
  case Nil
  show ?case by (simp add: sched_ok_sched0) (simp add: sched0_def)
next
  case (snoc x xs)
  let ?s = "foldl (\<lambda>s n. scheduleNoteJob now (Some n) s) sched0 xs"
  from snoc have ih: "sched_ok ?s"
    "map job_note (armed ?s) = filter (arms now) xs"
    "\<forall>j\<in>set (armed ?s). reminder_at (job_note j) = Some (Iso (fire_at j))"
    "dom (scheduledJobs ?s) = note_id ` set (filter (arms now) xs)"
    and fresh: "note_id x \<notin> note_id ` set xs"
    by auto
  show ?case
  proof (cases "arms now x")
    case False
    then have "scheduleNoteJob now (Some x) ?s = ?s"
      by (intro scheduleNoteJob_unchanged) (auto simp: arms_def split: option.splits stored_time.splits)
    with ih False show ?thesis
      unfolding recover_snoc by simp
  next
    case True
    then obtain w where w: "reminder_at x = Some (Iso w)" "\<not> w < now"
      by (auto simp: arms_iff)
    note f = scheduleNoteJob_fields[OF w ih(1)]
    have "set (map job_note (armed ?s)) \<subseteq> set xs"
      unfolding ih(2) by auto
    then have "\<forall>j\<in>set (armed ?s). job_note j \<in> set xs"
      by auto
    then have "\<forall>j\<in>set (armed ?s). note_id (job_note j) \<noteq> note_id x"
      using fresh by (metis imageI)
    then have nox: "filter (\<lambda>j. note_id (job_note j) \<noteq> note_id x) (armed ?s) = armed ?s"
      by (simp add: filter_id_conv)
    show ?thesis
      unfolding recover_snoc
    proof (intro conjI)
      show "sched_ok (scheduleNoteJob now (Some x) ?s)"
        by (rule scheduleNoteJob_ok[OF ih(1)])
      show "map job_note (armed (scheduleNoteJob now (Some x) ?s)) = filter (arms now) (xs @ [x])"
        unfolding f nox using True ih(2) by simp
      show "\<forall>j\<in>set (armed (scheduleNoteJob now (Some x) ?s)).
              reminder_at (job_note j) = Some (Iso (fire_at j))"
        unfolding f nox using w ih(3) by simp
      show "dom (scheduledJobs (scheduleNoteJob now (Some x) ?s))
              = note_id ` set (filter (arms now) (xs @ [x]))"
        unfolding f using True ih(4) by simp
    qed
  qed
qed

lemma distinct_existing: "distinct (map note_id rows) \<Longrightarrow> distinct (map note_id (existing rows))"
  by (simp add: existing_def distinct_map_filter)


text \<open>
  Claim C6. At startup the loop calls \<^verbatim>\<open>scheduleNoteJob\<close> for exactly the rows whose
  \<^verbatim>\<open>reminder_at\<close> is not null and whose \<^verbatim>\<open>reminded\<close> flag is 0. Afterwards every such row
  whose time is in the future has an armed timer, registered under its id and set for
  that time; no row whose time is in the past has one; every armed timer belongs to
  such a row; and no id has two. Row ids are pairwise different (the primary key).
\<close>

theorem recover_arms_exactly:
  assumes "distinct (map note_id rows)"
  shows "recover now rows
           = foldl (\<lambda>s n. scheduleNoteJob now (Some n) s) sched0
               (filter (\<lambda>n. reminder_at n \<noteq> None \<and> \<not> reminded n) rows)
       \<and> (\<forall>n\<in>set rows. \<forall>w. reminder_at n = Some (Iso w) \<and> \<not> reminded n \<and> now < w \<longrightarrow>
             (\<exists>j\<in>set (armed (recover now rows)).
                 job_note j = n \<and> fire_at j = w
                 \<and> scheduledJobs (recover now rows) (note_id n) = Some (job_handle j)))
       \<and> (\<forall>n\<in>set rows. \<forall>w. reminder_at n = Some (Iso w) \<and> w < now \<longrightarrow>
             armed_for (note_id n) (recover now rows) = []
             \<and> scheduledJobs (recover now rows) (note_id n) = None)
       \<and> (\<forall>j\<in>set (armed (recover now rows)).
             job_note j \<in> set rows \<and> \<not> reminded (job_note j)
             \<and> reminder_at (job_note j) = Some (Iso (fire_at j)))
       \<and> (\<forall>i. length (armed_for i (recover now rows)) \<le> 1)"
proof -
  let ?r = "recover now rows"
  note l = recover_loop[OF distinct_existing[OF assms], of now, folded recover_def]
  have ok: "sched_ok ?r"
    and jn: "map job_note (armed ?r) = filter (arms now) (existing rows)"
    and at: "\<forall>j\<in>set (armed ?r). reminder_at (job_note j) = Some (Iso (fire_at j))"
    and dom: "dom (scheduledJobs ?r) = note_id ` set (filter (arms now) (existing rows))"
    using l by auto
  have inj: "inj_on note_id (set rows)"
    using assms by (simp add: distinct_map)
  have mem: "\<forall>j\<in>set (armed ?r). job_note j \<in> set rows \<and> \<not> reminded (job_note j) \<and> arms now (job_note j)"
  proof
    fix j assume "j \<in> set (armed ?r)"
    then have "job_note j \<in> set (map job_note (armed ?r))"
      by simp
    then show "job_note j \<in> set rows \<and> \<not> reminded (job_note j) \<and> arms now (job_note j)"
      unfolding jn by (simp add: existing_def)
  qed
  have future: "\<exists>j\<in>set (armed ?r). job_note j = n \<and> fire_at j = w
                  \<and> scheduledJobs ?r (note_id n) = Some (job_handle j)"
    if "n \<in> set rows" "reminder_at n = Some (Iso w)" "\<not> reminded n" "now < w" for n w
  proof -
    have "n \<in> set (filter (arms now) (existing rows))"
      using that by (simp add: existing_def arms_iff)
    then have "n \<in> set (map job_note (armed ?r))"
      by (simp only: jn)
    then obtain j where j: "j \<in> set (armed ?r)" "job_note j = n"
      by auto
    with at that(2) have "fire_at j = w"
      by auto
    moreover have "scheduledJobs ?r (note_id n) = Some (job_handle j)"
      using sched_ok_registered[OF ok j(1)] j(2) by simp
    ultimately show ?thesis
      using j by blast
  qed
  have past: "armed_for (note_id n) ?r = [] \<and> scheduledJobs ?r (note_id n) = None"
    if "n \<in> set rows" "reminder_at n = Some (Iso w)" "w < now" for n w
  proof -
    have na: "\<not> arms now n"
      using that by (simp add: arms_iff)
    have "note_id n \<notin> note_id ` set (filter (arms now) (existing rows))"
    proof
      assume "note_id n \<in> note_id ` set (filter (arms now) (existing rows))"
      then obtain n' where n': "n' \<in> set rows" "arms now n'" "note_id n' = note_id n"
        by (auto simp: existing_def)
      with inj that(1) have "n' = n"
        by (auto dest: inj_onD)
      with n' na show False by simp
    qed
    then have none: "scheduledJobs ?r (note_id n) = None"
      using dom by blast
    then have "armed_for (note_id n) ?r = []"
      using ok by (auto simp: armed_for_def filter_empty_conv dest: sched_ok_registered)
    with none show ?thesis by simp
  qed
  show ?thesis
  proof (intro conjI ballI allI impI)
    show "recover now rows
           = foldl (\<lambda>s n. scheduleNoteJob now (Some n) s) sched0
               (filter (\<lambda>n. reminder_at n \<noteq> None \<and> \<not> reminded n) rows)"
      by (simp add: recover_def existing_def)
  next
    fix i show "length (armed_for i ?r) \<le> 1"
      by (rule at_most_one_armed[OF ok])
  qed (use future past mem at in \<open>auto\<close>)
qed
theorem recover_arms_exactly_witness:
  "distinct (map note_id example_rows)
   \<and> (\<exists>j\<in>set (armed (recover 100 example_rows)).
         job_note j = note1 (Some (Iso 500)) \<and> fire_at j = 500
         \<and> scheduledJobs (recover 100 example_rows) 1 = Some (job_handle j))
   \<and> armed_for 2 (recover 100 example_rows) = []
   \<and> scheduledJobs (recover 100 example_rows) 2 = None
   \<and> map (\<lambda>j. (job_handle j, fire_at j, note_id (job_note j))) (armed (recover 100 example_rows))
        = [(0, 500, 1)]"
proof -
  have d: "distinct (map note_id example_rows)"
    by (simp add: example_rows_def note1_def note2_def)
  note t = recover_arms_exactly[OF d, of 100]
  from t have fut: "\<exists>j\<in>set (armed (recover 100 example_rows)).
                 job_note j = n \<and> fire_at j = w
                 \<and> scheduledJobs (recover 100 example_rows) (note_id n) = Some (job_handle j)"
    if "n \<in> set example_rows" "reminder_at n = Some (Iso w) \<and> \<not> reminded n \<and> 100 < w" for n w
    using that by blast
  from t have past: "armed_for (note_id n) (recover 100 example_rows) = []
             \<and> scheduledJobs (recover 100 example_rows) (note_id n) = None"
    if "n \<in> set example_rows" "reminder_at n = Some (Iso w) \<and> w < 100" for n w
    using that by blast
  have e: "map (\<lambda>j. (job_handle j, fire_at j, note_id (job_note j))) (armed (recover 100 example_rows))
        = [(0, 500, 1)]"
    by (simp add: recover_def existing_def example_rows_def note1_def note2_def
        scheduleNoteJob_def sched0_def Let_def)
  have "\<exists>j\<in>set (armed (recover 100 example_rows)).
          job_note j = note1 (Some (Iso 500)) \<and> fire_at j = 500
          \<and> scheduledJobs (recover 100 example_rows) (note_id (note1 (Some (Iso 500)))) = Some (job_handle j)"
    by (rule fut) (simp_all add: example_rows_def note1_def)
  moreover have "armed_for (note_id (note2 (Some (Iso 50)))) (recover 100 example_rows) = []
          \<and> scheduledJobs (recover 100 example_rows) (note_id (note2 (Some (Iso 50)))) = None"
    by (rule past[of _ 50]) (simp_all add: example_rows_def note2_def)
  ultimately show ?thesis
    using d e by (simp add: note1_def note2_def)
qed

section \<open>Properties of the session manager\<close>

lemma sess_ok_sess0: "sess_ok sess0"
  by (simp add: sess_ok_def sess0_def)

lemma sess_ok_registered:
  "sess_ok s \<Longrightarrow> t \<in> set (timeouts s) \<Longrightarrow> stateTimeouts s (timeout_chat t) = Some (timeout_handle t)"
  by (simp add: sess_ok_def)

lemma sess_ok_key:
  "sess_ok s \<Longrightarrow> t \<in> set (timeouts s) \<Longrightarrow> stateTimeouts s c = Some (timeout_handle t)
     \<Longrightarrow> c = timeout_chat t"
  by (simp add: sess_ok_def)

lemma cleared_timeouts:
  assumes "sess_ok s"
  shows "(case stateTimeouts s c of
            Some h \<Rightarrow> filter (\<lambda>t. timeout_handle t \<noteq> h) (timeouts s)
          | None \<Rightarrow> timeouts s)
         = filter (\<lambda>t. timeout_chat t \<noteq> c) (timeouts s)"
proof (cases "stateTimeouts s c")
  case None
  with assms have "\<forall>t\<in>set (timeouts s). timeout_chat t \<noteq> c"
    by (auto dest: sess_ok_registered)
  then have "filter (\<lambda>t. timeout_chat t \<noteq> c) (timeouts s) = timeouts s"
    by (simp add: filter_id_conv)
  with None show ?thesis by simp
next
  case (Some h)
  with assms have "\<forall>t\<in>set (timeouts s). (timeout_handle t \<noteq> h) = (timeout_chat t \<noteq> c)"
    by (auto dest: sess_ok_registered sess_ok_key)
  then have "filter (\<lambda>t. timeout_handle t \<noteq> h) (timeouts s) = filter (\<lambda>t. timeout_chat t \<noteq> c) (timeouts s)"
    by (intro filter_cong) auto
  with Some show ?thesis by simp
qed

lemma setState_fields:
  assumes "sess_ok s"
  shows "userState (setState now c st s) = (userState s)(c \<mapsto> st)"
    and "timeouts (setState now c st s) =
           filter (\<lambda>t. timeout_chat t \<noteq> c) (timeouts s)
             @ [\<lparr>timeout_handle = next_timeout s, timeout_chat = c, deadline = now + 120000\<rparr>]"
    and "stateTimeouts (setState now c st s) = (stateTimeouts s)(c \<mapsto> next_timeout s)"
    and "next_timeout (setState now c st s) = Suc (next_timeout s)"
  using cleared_timeouts[OF assms, of c]
  by (auto simp: setState_def clearTimeout_def Let_def split: option.splits)

lemma clearState_fields:
  assumes "sess_ok s"
  shows "userState (clearState c s) = (userState s)(c := None)"
    and "timeouts (clearState c s) = filter (\<lambda>t. timeout_chat t \<noteq> c) (timeouts s)"
    and "stateTimeouts (clearState c s) = (stateTimeouts s)(c := None)"
    and "next_timeout (clearState c s) = next_timeout s"
  using cleared_timeouts[OF assms, of c]
  by (auto simp: clearState_def clearTimeout_def Let_def split: option.splits)

lemma setState_ok:
  assumes "sess_ok s"
  shows "sess_ok (setState now c st s)"
proof -
  have lt: "\<forall>t\<in>set (timeouts s). timeout_handle t < next_timeout s"
    and reg: "\<forall>c h. stateTimeouts s c = Some h \<longrightarrow> h < next_timeout s"
    and key: "\<forall>t \<in> set (timeouts s). \<forall>c. (stateTimeouts s c = Some (timeout_handle t)) = (c = timeout_chat t)"
    and dist: "distinct (map timeout_handle (timeouts s))"
    and both: "\<forall>c. (userState s c = None) = (stateTimeouts s c = None)"
    and live: "\<forall>c h. stateTimeouts s c = Some h \<longrightarrow> h \<in> timeout_handle ` set (timeouts s)"
    using assms by (auto simp: sess_ok_def)
  have fresh: "next_timeout s \<notin> timeout_handle ` set (timeouts s)"
    using lt by auto
  have nreg: "\<And>k. stateTimeouts s k \<noteq> Some (next_timeout s)"
    using reg by (metis less_irrefl)
  show ?thesis
    unfolding sess_ok_def setState_fields[OF assms]
  proof (intro conjI)
    show "\<forall>t\<in>set (filter (\<lambda>t. timeout_chat t \<noteq> c) (timeouts s)
                    @ [\<lparr>timeout_handle = next_timeout s, timeout_chat = c, deadline = now + 120000\<rparr>]).
            \<forall>ca. (((stateTimeouts s)(c \<mapsto> next_timeout s)) ca = Some (timeout_handle t))
                  = (ca = timeout_chat t)"
      using key fresh nreg by auto
    show "distinct (map timeout_handle
            (filter (\<lambda>t. timeout_chat t \<noteq> c) (timeouts s)
               @ [\<lparr>timeout_handle = next_timeout s, timeout_chat = c, deadline = now + 120000\<rparr>]))"
      using dist fresh by (auto simp: distinct_map_filter)
    show "\<forall>t\<in>set (filter (\<lambda>t. timeout_chat t \<noteq> c) (timeouts s)
                    @ [\<lparr>timeout_handle = next_timeout s, timeout_chat = c, deadline = now + 120000\<rparr>]).
            timeout_handle t < Suc (next_timeout s)"
      using lt by (auto simp: less_Suc_eq)
    show "\<forall>ca h. ((stateTimeouts s)(c \<mapsto> next_timeout s)) ca = Some h \<longrightarrow> h < Suc (next_timeout s)"
      using reg by (auto simp: less_Suc_eq)
    show "\<forall>ca. (((userState s)(c \<mapsto> st)) ca = None) = (((stateTimeouts s)(c \<mapsto> next_timeout s)) ca = None)"
      using both by auto
    show "\<forall>ca h. ((stateTimeouts s)(c \<mapsto> next_timeout s)) ca = Some h \<longrightarrow>
            h \<in> timeout_handle ` set (filter (\<lambda>t. timeout_chat t \<noteq> c) (timeouts s)
                    @ [\<lparr>timeout_handle = next_timeout s, timeout_chat = c, deadline = now + 120000\<rparr>])"
    proof (intro allI impI)
      fix ca h assume a: "((stateTimeouts s)(c \<mapsto> next_timeout s)) ca = Some h"
      show "h \<in> timeout_handle ` set (filter (\<lambda>t. timeout_chat t \<noteq> c) (timeouts s)
                    @ [\<lparr>timeout_handle = next_timeout s, timeout_chat = c, deadline = now + 120000\<rparr>])"
      proof (cases "ca = c")
        case True
        with a show ?thesis by simp
      next
        case False
        with a have r: "stateTimeouts s ca = Some h" by simp
        with live obtain t where t: "t \<in> set (timeouts s)" "timeout_handle t = h"
          by (metis imageE)
        with r assms have "timeout_chat t = ca"
          by (metis sess_ok_key)
        with t False show ?thesis by auto
      qed
    qed
  qed
qed

lemma clearState_ok:
  assumes "sess_ok s"
  shows "sess_ok (clearState c s)"
proof -
  have live: "\<forall>c h. stateTimeouts s c = Some h \<longrightarrow> h \<in> timeout_handle ` set (timeouts s)"
    using assms by (auto simp: sess_ok_def)
  have l: "h \<in> timeout_handle ` set (filter (\<lambda>t. timeout_chat t \<noteq> c) (timeouts s))"
    if "ca \<noteq> c" "stateTimeouts s ca = Some h" for ca h
  proof -
    from live that obtain t where t: "t \<in> set (timeouts s)" "timeout_handle t = h"
      by (metis imageE)
    with that assms have "timeout_chat t = ca"
      by (metis sess_ok_key)
    with t that show ?thesis by auto
  qed
  show ?thesis
    using assms l unfolding sess_ok_def clearState_fields[OF assms]
    by (auto simp: distinct_map_filter)
qed

lemma find_timeout:
  "find (\<lambda>t. timeout_handle t = h) ts = Some t \<Longrightarrow> t \<in> set ts \<and> timeout_handle t = h"
  by (auto simp: find_Some_iff)

lemma expire_ok:
  assumes "sess_ok s"
  shows "sess_ok (expire h s)"
proof (cases "find (\<lambda>t. timeout_handle t = h) (timeouts s)")
  case None
  with assms show ?thesis by (simp add: expire_def)
next
  case (Some t)
  then have t: "t \<in> set (timeouts s)" "timeout_handle t = h"
    by (auto dest: find_timeout)
  have c: "filter (\<lambda>t. timeout_handle t \<noteq> h) (timeouts s)
             = filter (\<lambda>u. timeout_chat u \<noteq> timeout_chat t) (timeouts s)"
    using cleared_timeouts[OF assms, of "timeout_chat t"] sess_ok_registered[OF assms t(1)] t(2)
    by simp
  have "expire h s = clearState (timeout_chat t) s"
    using Some sess_ok_registered[OF assms t(1)] t(2)
    by (simp add: expire_def clearState_def clearTimeout_def Let_def)
  then show ?thesis
    by (simp add: clearState_ok[OF assms])
qed

lemma reachable_ok: "sess_reachable s \<Longrightarrow> sess_ok s"
  by (induction rule: sess_reachable.induct)
     (simp_all add: sess_ok_sess0 setState_ok clearState_ok expire_ok)

lemma filter_same_key:
  assumes "distinct (map f xs)"
  shows "length (filter (\<lambda>x. f x = h) xs) \<le> 1"
  using assms by (induction xs) (auto simp: filter_empty_conv image_iff)

lemma at_most_one_timeout:
  assumes "sess_ok s"
  shows "length (timeouts_for c s) \<le> 1"
proof (cases "stateTimeouts s c")
  case None
  with assms have "timeouts_for c s = []"
    by (auto simp: timeouts_for_def filter_empty_conv dest: sess_ok_registered)
  then show ?thesis by simp
next
  case (Some h)
  with assms have "timeouts_for c s
      = filter (\<lambda>t. timeout_chat t = c) (filter (\<lambda>t. timeout_handle t = h) (timeouts s))"
    unfolding timeouts_for_def filter_filter
    by (intro filter_cong) (auto dest: sess_ok_registered)
  moreover have "distinct (map timeout_handle (timeouts s))"
    using assms by (simp add: sess_ok_def)
  then have "length (filter (\<lambda>t. timeout_handle t = h) (timeouts s)) \<le> 1"
    by (rule filter_same_key)
  ultimately show ?thesis
    by (metis length_filter_le order_trans)
qed

text \<open>
  Claim C2. In every state the session maps can reach, each chat has at most one session
  (the map holds one value per chat) and at most one live expiry timer, and none when it
  has no session. \<^verbatim>\<open>setState\<close> stores the new session in place of any prior one,
  cancels the prior timer of the chat and leaves exactly one live timer for it, due two
  minutes after this call; after two calls the session is the second one and the only
  deadline is two minutes after the second call. \<^verbatim>\<open>clearState\<close> deletes the session, the
  registry entry and the timer. Other chats are not touched.
\<close>

theorem one_session_one_timer:
  assumes "sess_reachable s"
  shows "(\<forall>c. length (timeouts_for c s) \<le> 1
             \<and> (userState s c = None \<longrightarrow> timeouts_for c s = []))
       \<and> userState (setState now c st s) c = Some st
       \<and> timeouts_for c (setState now c st s)
           = [\<lparr>timeout_handle = next_timeout s, timeout_chat = c, deadline = now + 2 * 60 * 1000\<rparr>]
       \<and> (\<forall>t\<in>set (timeouts_for c s). t \<notin> set (timeouts (setState now c st s)))
       \<and> userState (setState now' c st' (setState now c st s)) c = Some st'
       \<and> map deadline (timeouts_for c (setState now' c st' (setState now c st s)))
           = [now' + 2 * 60 * 1000]
       \<and> userState (clearState c s) c = None
       \<and> stateTimeouts (clearState c s) c = None
       \<and> timeouts_for c (clearState c s) = []
       \<and> (\<forall>c'. c' \<noteq> c \<longrightarrow>
             userState (setState now c st s) c' = userState s c'
             \<and> timeouts_for c' (setState now c st s) = timeouts_for c' s
             \<and> userState (clearState c s) c' = userState s c'
             \<and> timeouts_for c' (clearState c s) = timeouts_for c' s)"
proof -
  have ok: "sess_ok s"
    by (rule reachable_ok[OF assms])
  have ok': "sess_ok (setState now c st s)"
    by (rule setState_ok[OF ok])
  note f = setState_fields[OF ok]
  note f' = setState_fields[OF ok']
  note g = clearState_fields[OF ok]
  have fresh: "\<forall>t\<in>set (timeouts s). timeout_handle t \<noteq> next_timeout s"
    using ok by (auto simp: sess_ok_def)
  have none: "timeouts_for k s = []" if "userState s k = None" for k
  proof -
    from that ok have "stateTimeouts s k = None"
      by (simp add: sess_ok_def)
    with ok show ?thesis
      by (auto simp: timeouts_for_def filter_empty_conv dest: sess_ok_registered)
  qed
  show ?thesis
  proof (intro conjI allI impI ballI)
    fix k show "length (timeouts_for k s) \<le> 1"
      by (rule at_most_one_timeout[OF ok])
  next
    fix k assume "userState s k = None"
    then show "timeouts_for k s = []" by (rule none)
  next
    fix t assume "t \<in> set (timeouts_for c s)"
    then have t: "t \<in> set (timeouts s)" "timeout_chat t = c"
      by (auto simp: timeouts_for_def)
    with fresh have "timeout_handle t \<noteq> next_timeout s"
      by auto
    then have "t \<noteq> \<lparr>timeout_handle = next_timeout s, timeout_chat = c, deadline = now + 120000\<rparr>"
      by auto
    with t show "t \<notin> set (timeouts (setState now c st s))"
      unfolding f by auto
  next
    fix c' assume "c' \<noteq> c"
    then show "timeouts_for c' (setState now c st s) = timeouts_for c' s"
      "timeouts_for c' (clearState c s) = timeouts_for c' s"
      unfolding timeouts_for_def f g by (auto intro: filter_cong)
  qed (simp_all add: f f' g timeouts_for_def)
qed

theorem one_session_one_timer_witness:
  "sess_reachable (setState 1000 7 (CreateReminder 1 None) sess0)
   \<and> timeouts_for 7 (setState 1000 7 (CreateReminder 1 None) sess0)
       = [\<lparr>timeout_handle = 0, timeout_chat = 7, deadline = 121000\<rparr>]
   \<and> userState (setState 61000 7 (CreateReminder 2 (Some ''beli tinta''))
                  (setState 1000 7 (CreateReminder 1 None) sess0)) 7
       = Some (CreateReminder 2 (Some ''beli tinta''))
   \<and> timeouts_for 7 (setState 61000 7 (CreateReminder 2 (Some ''beli tinta''))
                  (setState 1000 7 (CreateReminder 1 None) sess0))
       = [\<lparr>timeout_handle = 1, timeout_chat = 7, deadline = 181000\<rparr>]
   \<and> userState (clearState 7 (setState 1000 7 (CreateReminder 1 None) sess0)) 7 = None
   \<and> timeouts_for 7 (clearState 7 (setState 1000 7 (CreateReminder 1 None) sess0)) = []"
proof -
  have r: "sess_reachable (setState 1000 7 (CreateReminder 1 None) sess0)"
    by (intro sess_reachable.intros)
  have n: "next_timeout (setState 1000 7 (CreateReminder 1 None) sess0) = 1"
    by (simp add: setState_def sess0_def Let_def)
  have t: "timeouts_for 7 (setState 1000 7 (CreateReminder 1 None) sess0)
       = [\<lparr>timeout_handle = 0, timeout_chat = 7, deadline = 121000\<rparr>]"
    by (simp add: setState_def sess0_def Let_def timeouts_for_def)
  note T = one_session_one_timer[OF r, where now = 61000 and c = 7
        and st = "CreateReminder 2 (Some ''beli tinta'')" and now' = 0 and st' = ReportWizard]
  from T have a: "userState (setState 61000 7 (CreateReminder 2 (Some ''beli tinta''))
                  (setState 1000 7 (CreateReminder 1 None) sess0)) 7
       = Some (CreateReminder 2 (Some ''beli tinta''))"
    by blast
  from T have b: "timeouts_for 7 (setState 61000 7 (CreateReminder 2 (Some ''beli tinta''))
                  (setState 1000 7 (CreateReminder 1 None) sess0))
       = [\<lparr>timeout_handle = next_timeout (setState 1000 7 (CreateReminder 1 None) sess0),
           timeout_chat = 7, deadline = 61000 + 2 * 60 * 1000\<rparr>]"
    by blast
  from T have c: "userState (clearState 7 (setState 1000 7 (CreateReminder 1 None) sess0)) 7 = None"
    "timeouts_for 7 (clearState 7 (setState 1000 7 (CreateReminder 1 None) sess0)) = []"
    by blast+
  show ?thesis
    unfolding a b c n using r t by simp
qed

text \<open>
  The handlers write the session maps through \<^verbatim>\<open>setState\<close> and \<^verbatim>\<open>clearState\<close> only, so
  every step that changes a session starts a fresh timer, and the states above are the
  ones the process is in.
\<close>

lemma insertNote_sess: "insertNote chat t at b = (i, b1) \<Longrightarrow> sess b1 = sess b"
  by (auto simp: insertNote_def Let_def)

lemma on_message_sess_reachable:
  assumes "sess_reachable (sess b)" and "on_message chrono now chatId msg b = Some b'"
  shows "sess_reachable (sess b')"
  using assms
  by (auto simp: on_message_def edit_note_text_def edit_note_time_def create_reminder_1_def
      create_reminder_2_def confirm_next_def await_time_for_note_def no_state_def
      showMainMenu_def send_def insertNote_def Let_def
      split: if_splits option.splits session.splits parsed.splits prod.splits
      intro: sess_reachable.intros)

lemma timeout_fires_sess_reachable:
  assumes "sess_reachable (sess b)"
  shows "sess_reachable (sess (timeout_fires h b))"
  using assms
  by (auto simp: timeout_fires_def showMainMenu_def send_def split: option.splits
      intro: sess_reachable.intros)

lemma edit_time_command_sess_reachable:
  assumes "sess_reachable (sess b)"
  shows "sess_reachable (sess (edit_time_command now chatId i b))"
  using assms
  by (auto simp: edit_time_command_def send_def split: option.splits
      intro: sess_reachable.intros)

section \<open>Properties of the message handler\<close>

lemma digit_roundtrip:
  assumes "0 \<le> d" "d < 10"
  shows "digitVal (digitChar d) = d" "digitChar d \<noteq> CHR '':''"
proof -
  from assms have "d = 0 \<or> d = 1 \<or> d = 2 \<or> d = 3 \<or> d = 4 \<or> d = 5 \<or> d = 6 \<or> d = 7 \<or> d = 8 \<or> d = 9"
    by presburger
  then show "digitVal (digitChar d) = d" "digitChar d \<noteq> CHR '':''"
    by (auto simp: digitVal_def digitChar_def)
qed

lemma pad2_roundtrip:
  assumes "0 \<le> n" "n < 100"
  shows "Number (pad2 n) = n" "CHR '':'' \<notin> set (pad2 n)"
proof -
  have a: "0 \<le> n div 10" "n div 10 < 10" "0 \<le> n mod 10" "n mod 10 < 10"
    using assms by auto
  show "Number (pad2 n) = n"
    by (simp add: Number_def pad2_def digit_roundtrip[OF a(1,2)] digit_roundtrip[OF a(3,4)])
  show "CHR '':'' \<notin> set (pad2 n)"
    using digit_roundtrip(2)[OF a(1,2)] digit_roundtrip(2)[OF a(3,4)]
    by (auto simp: pad2_def)
qed

lemma split_on_no_sep: "c \<notin> set s \<Longrightarrow> split_on c s = [s]"
  by (induction s) auto

lemma split_on_sep: "c \<notin> set p \<Longrightarrow> split_on c (p @ c # r) = p # split_on c r"
  by (induction p) auto

lemma div_below:
  assumes "(0::int) \<le> x" "x < k * n" "0 < k"
  shows "0 \<le> x div k" "x div k < n"
proof -
  show "0 \<le> x div k"
    using assms by (simp add: pos_imp_zdiv_nonneg_iff)
  have "x = x div k * k + x mod k"
    by simp
  moreover have "0 \<le> x mod k"
    using assms(3) by simp
  ultimately have "x div k * k \<le> x"
    by linarith
  with assms(2) have "k * (x div k) < k * n"
    by (simp add: mult.commute)
  with assms(3) show "x div k < n"
    by (simp only: mult_less_cancel_left_pos)
qed

lemma hour_minute_range:
  "0 \<le> hour_of t" "hour_of t < 24" "0 \<le> minute_of t" "minute_of t < 60"
proof -
  have d: "0 \<le> t mod 86400000" "t mod 86400000 < 3600000 * 24"
    and h: "0 \<le> t mod 3600000" "t mod 3600000 < 60000 * 60"
    by simp_all
  show "0 \<le> hour_of t" "hour_of t < 24"
    unfolding hour_of_def day_ms_def hour_ms_def
    using div_below[OF d] by simp_all
  show "0 \<le> minute_of t" "minute_of t < 60"
    unfolding minute_of_def hour_ms_def minute_ms_def
    using div_below[OF h] by simp_all
qed

lemma parseHHmm_formatHHmm: "parseHHmm (formatHHmm t) = Some (hour_of t, minute_of t)"
proof -
  note r = hour_minute_range[of t]
  have h: "Number (pad2 (hour_of t)) = hour_of t" "CHR '':'' \<notin> set (pad2 (hour_of t))"
    using r by (simp_all add: pad2_roundtrip)
  have m: "Number (pad2 (minute_of t)) = minute_of t" "CHR '':'' \<notin> set (pad2 (minute_of t))"
    using r by (simp_all add: pad2_roundtrip)
  have "split_on CHR '':'' (formatHHmm t) = [pad2 (hour_of t), pad2 (minute_of t)]"
    using split_on_sep[OF h(2), of "pad2 (minute_of t)"] split_on_no_sep[OF m(2)]
    by (simp add: formatHHmm_def)
  then show ?thesis
    by (simp add: parseHHmm_def h m)
qed

lemma find_snoc_only:
  "\<forall>x\<in>set xs. \<not> P x \<Longrightarrow> P y \<Longrightarrow> find P (xs @ [y]) = Some y"
  by (induction xs) auto

lemma getNoteById_inserted:
  assumes "rowids_ok b"
  shows "getNoteById (Suc (last_rowid b)) chat
           (notes_table b @ [\<lparr>note_id = Suc (last_rowid b), chat_id = chat, note_text = t,
                               reminder_at = at, reminded = False, status = ''pending''\<rparr>])
         = Some \<lparr>note_id = Suc (last_rowid b), chat_id = chat, note_text = t,
                 reminder_at = at, reminded = False, status = ''pending''\<rparr>"
proof -
  have "\<forall>n\<in>set (notes_table b). \<not> (note_id n = Suc (last_rowid b) \<and> chat_id n = chat)"
    using assms by (auto simp: rowids_ok_def)
  then show ?thesis
    unfolding getNoteById_def by (rule find_snoc_only) simp
qed

lemma startOfDay_add_day: "startOfDay (add_day t) = startOfDay t + 86400000"
  by (simp add: startOfDay_def add_day_def day_ms_def)

lemma startOfDay_le: "startOfDay t \<le> t" "t < startOfDay t + 86400000"
proof -
  have "0 \<le> t mod 86400000" "t mod 86400000 < 86400000"
    by simp_all
  then show "startOfDay t \<le> t" "t < startOfDay t + 86400000"
    by (simp_all add: startOfDay_def day_ms_def)
qed

lemma tomorrow_is_future:
  assumes "0 \<le> hh" "0 \<le> mm"
  shows "now < set_hour_minute (add_day now) hh mm"
proof -
  have "0 \<le> hh * 3600000 + mm * 60000"
    using assms by simp
  with startOfDay_le(2)[of now] show ?thesis
    by (simp add: set_hour_minute_def startOfDay_add_day hour_ms_def minute_ms_def)
qed

lemma clock_fields_sum:
  assumes "c mod 60000 = 0"
  shows "hour_of c * 3600000 + minute_of c * 60000 = c mod 86400000"
proof -
  let ?x = "c mod 86400000"
  have a: "c mod 3600000 = ?x mod 3600000"
    by (simp add: mod_mod_cancel)
  have b: "(?x mod 3600000) mod 60000 = c mod 60000"
    by (simp add: mod_mod_cancel)
  have "?x = 3600000 * (?x div 3600000) + ?x mod 3600000"
    by simp
  moreover have "?x mod 3600000 = 60000 * ((?x mod 3600000) div 60000) + (?x mod 3600000) mod 60000"
    by simp
  ultimately have "?x = 3600000 * (?x div 3600000) + 60000 * ((?x mod 3600000) div 60000)"
    using b assms by linarith
  then show ?thesis
    unfolding hour_of_def minute_of_def day_ms_def hour_ms_def minute_ms_def a
    by (simp add: mult.commute)
qed

lemma same_day_tomorrow:
  assumes "startOfDay now = startOfDay c" "c mod 60000 = 0"
  shows "startOfDay now + 86400000 + hour_of c * 3600000 + minute_of c * 60000 = c + 86400000"
proof -
  have "startOfDay c + c mod 86400000 = c"
    by (simp add: startOfDay_def day_ms_def)
  with clock_fields_sum[OF assms(2)] assms(1) show ?thesis
    by linarith
qed

lemma confirm_next_yes:
  assumes "rowids_ok b" "affirmative text"
  shows "confirm_next now chatId text t (formatHHmm c) b =
           Some (showMainMenu chatId
                  (send chatId
                     (ScheduledTomorrow (Suc (last_rowid b))
                        (startOfDay now + 86400000 + hour_of c * 3600000 + minute_of c * 60000))
                     (b\<lparr>notes_table := notes_table b @
                           [\<lparr>note_id = Suc (last_rowid b), chat_id = chatId, note_text = t,
                             reminder_at = Some (Iso (startOfDay now + 86400000
                                                      + hour_of c * 3600000 + minute_of c * 60000)),
                             reminded = False, status = ''pending''\<rparr>],
                        last_rowid := Suc (last_rowid b),
                        sched := scheduleNoteJob now
                                   (Some \<lparr>note_id = Suc (last_rowid b), chat_id = chatId, note_text = t,
                                          reminder_at = Some (Iso (startOfDay now + 86400000
                                                      + hour_of c * 3600000 + minute_of c * 60000)),
                                          reminded = False, status = ''pending''\<rparr>)
                                   (sched b),
                        sess := clearState chatId (sess b)\<rparr>)))"
  using assms(2) getNoteById_inserted[OF assms(1)]
  by (simp add: confirm_next_def parseHHmm_formatHHmm insertNote_def Let_def
      set_hour_minute_def startOfDay_add_day hour_ms_def minute_ms_def)

lemma clearState_session: "userState (clearState c s) c = None"
  by (simp add: clearState_def clearTimeout_def Let_def split: option.splits)

lemma setState_session: "userState (setState now c st s) c = Some st"
  by (simp add: setState_def clearTimeout_def Let_def split: option.splits)

text \<open>
  What the branch \<^verbatim>\<open>confirm_next_for_reminder\<close> does, in every state. An affirmative reply
  inserts a reminder and arms its timer for the day after the day of the reply, at the
  hour and minute of the candidate, and clears the session; this is the candidate plus
  one day when the reply arrives on the candidate's calendar day. Any other reply
  writes nothing to the table or the scheduler and sets the session to
  \<^verbatim>\<open>create_reminder\<close> step 2 with the text captured before.
\<close>

lemma confirm_next_reply:
  assumes "userState (sess b) chatId = Some (ConfirmNext i t (formatHHmm c))"
    and "msg \<noteq> []" and "rowids_ok b"
  shows "let dt = startOfDay now + 86400000 + hour_of c * 3600000 + minute_of c * 60000;
             row = \<lparr>note_id = Suc (last_rowid b), chat_id = chatId, note_text = t,
                    reminder_at = Some (Iso dt), reminded = False, status = ''pending''\<rparr>
         in (affirmative (trim msg) \<longrightarrow>
               (\<exists>b'. on_message chrono now chatId msg b = Some b'
                   \<and> notes_table b' = notes_table b @ [row]
                   \<and> sched b' = scheduleNoteJob now (Some row) (sched b)
                   \<and> last (armed (sched b')) = \<lparr>job_handle = next_job (sched b), fire_at = dt, job_note = row\<rparr>
                   \<and> scheduledJobs (sched b') (Suc (last_rowid b)) = Some (next_job (sched b))
                   \<and> userState (sess b') chatId = None))
          \<and> (startOfDay now = startOfDay c \<and> c mod 60000 = 0 \<longrightarrow> dt = c + 86400000)
          \<and> (\<not> affirmative (trim msg) \<longrightarrow>
               (\<exists>b'. on_message chrono now chatId msg b = Some b'
                   \<and> notes_table b' = notes_table b \<and> last_rowid b' = last_rowid b
                   \<and> sched b' = sched b
                   \<and> userState (sess b') chatId = Some (CreateReminder 2 (Some t))))"
proof -
  define dt where "dt = startOfDay now + 86400000 + hour_of c * 3600000 + minute_of c * 60000"
  define row where "row = \<lparr>note_id = Suc (last_rowid b), chat_id = chatId, note_text = t,
                    reminder_at = Some (Iso dt), reminded = False, status = ''pending''\<rparr>"
  have m: "on_message chrono now chatId msg b = confirm_next now chatId (trim msg) t (formatHHmm c) b"
    using assms(1,2) by (simp add: on_message_def)
  have fut: "\<not> dt < now"
    using tomorrow_is_future[of "hour_of c" "minute_of c" now] hour_minute_range[of c]
    by (simp add: dt_def set_hour_minute_def startOfDay_add_day hour_ms_def minute_ms_def)
  have r: "reminder_at row = Some (Iso dt)" "note_id row = Suc (last_rowid b)"
    by (simp_all add: row_def)
  note arm = scheduleNoteJob_arm[OF r(1) fut, of "sched b"]
  have yes: "\<exists>b'. on_message chrono now chatId msg b = Some b'
                   \<and> notes_table b' = notes_table b @ [row]
                   \<and> sched b' = scheduleNoteJob now (Some row) (sched b)
                   \<and> last (armed (sched b')) = \<lparr>job_handle = next_job (sched b), fire_at = dt, job_note = row\<rparr>
                   \<and> scheduledJobs (sched b') (Suc (last_rowid b)) = Some (next_job (sched b))
                   \<and> userState (sess b') chatId = None"
    if "affirmative (trim msg)"
    unfolding m confirm_next_yes[OF assms(3) that] dt_def[symmetric] row_def[symmetric]
    by (simp add: showMainMenu_def send_def clearState_session arm r(2))
  have no: "\<exists>b'. on_message chrono now chatId msg b = Some b'
                   \<and> notes_table b' = notes_table b \<and> last_rowid b' = last_rowid b
                   \<and> sched b' = sched b
                   \<and> userState (sess b') chatId = Some (CreateReminder 2 (Some t))"
    if "\<not> affirmative (trim msg)"
    unfolding m using that
    by (simp add: confirm_next_def send_def setState_session)
  have same: "dt = c + 86400000" if "startOfDay now = startOfDay c \<and> c mod 60000 = 0"
    unfolding dt_def using that by (simp add: same_day_tomorrow)
  show ?thesis
    unfolding Let_def dt_def[symmetric] row_def[symmetric]
    using yes no same by blast
qed

lemma confirm_next_reply_example:
  "userState (sess asked_confirm) 7 = Some (ConfirmNext None ''minum obat'' (formatHHmm 32400000))
   \<and> ''Ya'' \<noteq> [] \<and> rowids_ok asked_confirm \<and> affirmative (trim ''Ya'')
   \<and> startOfDay 36030000 = startOfDay 32400000 \<and> (32400000::int) mod 60000 = 0
   \<and> map_option saved_times (on_message no_chrono 36030000 7 ''Ya'' asked_confirm)
       = Some [Some (Iso (32400000 + 86400000))]
   \<and> map_option armed_times (on_message no_chrono 36030000 7 ''Ya'' asked_confirm)
       = Some [32400000 + 86400000]
   \<and> map_option (session_of 7) (on_message no_chrono 36030000 7 ''Ya'' asked_confirm) = Some None"
proof -
  have h: "userState (sess asked_confirm) 7 = Some (ConfirmNext None ''minum obat'' (formatHHmm 32400000))"
    by (simp add: asked_confirm_def setState_session)
  have r: "rowids_ok asked_confirm"
    by (simp add: rowids_ok_def asked_confirm_def bot0_def)
  have a: "affirmative (trim ''Ya'')"
    by code_simp
  have d: "startOfDay 36030000 = startOfDay 32400000" "(32400000::int) mod 60000 = 0"
    "hour_of 32400000 = 9" "minute_of 32400000 = 0" "startOfDay 36030000 = 0"
    by (simp_all add: time_defs)
  have n: "notes_table asked_confirm = []" "armed (sched asked_confirm) = []"
    "next_job (sched asked_confirm) = 0" "last_rowid asked_confirm = 0"
    by (simp_all add: asked_confirm_def bot0_def sched0_def)
  from confirm_next_reply[OF h _ r, of "''Ya''" 36030000 no_chrono] a
  obtain b' where b': "on_message no_chrono 36030000 7 ''Ya'' asked_confirm = Some b'"
    "notes_table b' = [\<lparr>note_id = 1, chat_id = 7, note_text = ''minum obat'',
                         reminder_at = Some (Iso 118800000), reminded = False, status = ''pending''\<rparr>]"
    "sched b' = scheduleNoteJob 36030000
                  (Some \<lparr>note_id = 1, chat_id = 7, note_text = ''minum obat'',
                         reminder_at = Some (Iso 118800000), reminded = False, status = ''pending''\<rparr>)
                  (sched asked_confirm)"
    "userState (sess b') 7 = None"
    unfolding Let_def d n by auto
  have "armed_times b' = [118800000]"
    unfolding armed_times_def b'(3)
    by (simp add: scheduleNoteJob_def asked_confirm_def bot0_def sched0_def Let_def)
  with b' h r a d(1,2) show ?thesis
    by (simp add: saved_times_def session_of_def)
qed

text \<open>
  Claim C8. In the state \<^verbatim>\<open>confirm_next_for_reminder\<close> an affirmative reply should persist
  and schedule the reminder at exactly the candidate plus one day, at the same hour and
  minute: the bot asks whether to schedule the passed time "besok jam yang sama", and
  the resolver itself, without a today-marker, returns the candidate plus one day. The
  branch keeps only the candidate's \<^verbatim>\<open>HH:mm\<close> and takes the day from the clock at the
  reply. Asked at 23:59:30 about 09:00 of that day, the session lives until 00:01:30.
  A reply "ya" at 23:59:40 stores the candidate plus one day; a reply "ya" at 00:00:10
  stores, and arms, the candidate plus two days.
\<close>

theorem confirm_after_midnight_skips_a_day:
  "parseIndoPrefer no_chrono 86370000 ''hari ini jam 9 pagi'' = TimePassedToday 32400000
   \<and> map_option (session_of 7) (on_message no_chrono 86370000 7 ''hari ini jam 9 pagi'' asked_step2)
       = Some (Some (ConfirmNext None ''minum obat'' ''09:00''))
   \<and> map_option (timeouts_for 7 \<circ> sess)
        (run no_chrono [Message 86370000 7 ''hari ini jam 9 pagi''] asked_step2)
       = Some [\<lparr>timeout_handle = 1, timeout_chat = 7, deadline = 86370000 + 120000\<rparr>]
   \<and> map_option saved_times
        (run no_chrono [Message 86370000 7 ''hari ini jam 9 pagi'', Message 86380000 7 ''ya'']
           asked_step2)
       = Some [Some (Iso (32400000 + 86400000))]
   \<and> map_option saved_times
        (run no_chrono [Message 86370000 7 ''hari ini jam 9 pagi'', Message 86410000 7 ''ya'']
           asked_step2)
       = Some [Some (Iso (32400000 + 2 * 86400000))]
   \<and> map_option armed_times
        (run no_chrono [Message 86370000 7 ''hari ini jam 9 pagi'', Message 86410000 7 ''ya'']
           asked_step2)
       = Some [32400000 + 2 * 86400000]"
  by code_simp

text \<open>
  Claim C9, as amended. \<^verbatim>\<open>edit_note_time\<close> resolves the typed time with the resolver that
  \<^verbatim>\<open>create_reminder\<close> step 2 uses. When the resolver returns time_passed_today,
  \<^verbatim>\<open>edit_note_time\<close> sends a prompt to retry and leaves the session, the table and the
  scheduler as they were; \<^verbatim>\<open>create_reminder\<close> step 2 enters
  \<^verbatim>\<open>confirm_next_for_reminder\<close> with the captured text and the candidate's \<^verbatim>\<open>HH:mm\<close>.
\<close>

theorem time_passed_edit_and_create:
  assumes "parseIndoPrefer chrono now (trim msg) = TimePassedToday c" and "msg \<noteq> []"
  shows "(userState (sess b) chatId = Some (EditNoteTime i) \<longrightarrow>
            on_message chrono now chatId msg b = Some (send chatId TimePassedRetry b)
            \<and> userState (sess (send chatId TimePassedRetry b)) chatId = Some (EditNoteTime i)
            \<and> sess (send chatId TimePassedRetry b) = sess b
            \<and> notes_table (send chatId TimePassedRetry b) = notes_table b
            \<and> sched (send chatId TimePassedRetry b) = sched b)
       \<and> (userState (sess b) chatId = Some (CreateReminder 2 (Some t)) \<longrightarrow>
            (\<exists>b'. on_message chrono now chatId msg b = Some b'
                \<and> userState (sess b') chatId = Some (ConfirmNext None t (formatHHmm c))
                \<and> notes_table b' = notes_table b
                \<and> sched b' = sched b
                \<and> outbox b' = outbox b @ [(chatId, AskTomorrowSameHour (formatHHmm c))]))"
  using assms
  by (simp add: on_message_def edit_note_time_def create_reminder_2_def send_def setState_session)

theorem time_passed_edit_and_create_witness:
  "parseIndoPrefer no_chrono 36000000 (trim ''hari ini jam 9 pagi'') = TimePassedToday 32400000
   \<and> ''hari ini jam 9 pagi'' \<noteq> []
   \<and> userState (sess editing_time) 5 = Some (EditNoteTime 1)
   \<and> on_message no_chrono 36000000 5 ''hari ini jam 9 pagi'' editing_time
       = Some (send 5 TimePassedRetry editing_time)
   \<and> userState (sess asked_step2) 7 = Some (CreateReminder 2 (Some ''minum obat''))
   \<and> map_option (session_of 7) (on_message no_chrono 36000000 7 ''hari ini jam 9 pagi'' asked_step2)
       = Some (Some (ConfirmNext None ''minum obat'' (formatHHmm 32400000)))"
proof -
  have p: "parseIndoPrefer no_chrono 36000000 (trim ''hari ini jam 9 pagi'') = TimePassedToday 32400000"
    by code_simp
  have e: "userState (sess editing_time) 5 = Some (EditNoteTime 1)"
    by (simp add: editing_time_def setState_session)
  have s: "userState (sess asked_step2) 7 = Some (CreateReminder 2 (Some ''minum obat''))"
    by (simp add: asked_step2_def setState_session)
  have q: "''hari ini jam 9 pagi'' \<noteq> []"
    by simp
  note T = time_passed_edit_and_create[OF p q]
  from T[where b = editing_time and chatId = 5 and i = 1] e
  have 1: "on_message no_chrono 36000000 5 ''hari ini jam 9 pagi'' editing_time
             = Some (send 5 TimePassedRetry editing_time)"
    by simp
  from T[where b = asked_step2 and chatId = 7 and t = "''minum obat''"] s
  have 2: "map_option (session_of 7) (on_message no_chrono 36000000 7 ''hari ini jam 9 pagi'' asked_step2)
       = Some (Some (ConfirmNext None ''minum obat'' (formatHHmm 32400000)))"
    by (auto simp: session_of_def)
  from p e s 1 2 show ?thesis by simp
qed

text \<open>
  The claim as stated says that \<^verbatim>\<open>edit_note_time\<close> enters \<^verbatim>\<open>confirm_next_for_reminder\<close>
  as \<^verbatim>\<open>create_reminder\<close> step 2 does. On "hari ini jam 9 pagi" at 10:00 the editing chat
  stays in \<^verbatim>\<open>edit_note_time\<close> and the row keeps its time, while the creating chat enters
  \<^verbatim>\<open>confirm_next_for_reminder\<close>.
\<close>

theorem edit_time_passed_keeps_edit_session:
  "parseIndoPrefer no_chrono 36000000 ''hari ini jam 9 pagi'' = TimePassedToday 32400000
   \<and> session_of 5 editing_time = Some (EditNoteTime 1)
   \<and> map_option (session_of 5) (on_message no_chrono 36000000 5 ''hari ini jam 9 pagi'' editing_time)
       = Some (Some (EditNoteTime 1))
   \<and> map_option saved_times (on_message no_chrono 36000000 5 ''hari ini jam 9 pagi'' editing_time)
       = Some [Some (Iso 500000000)]
   \<and> map_option (session_of 7) (on_message no_chrono 36000000 7 ''hari ini jam 9 pagi'' asked_step2)
       = Some (Some (ConfirmNext None ''minum obat'' ''09:00''))"
  by code_simp

lemma no_state_time_passed:
  assumes "allAscii text" "startsIngat text" "trim (stripIngat text) \<noteq> []"
    and "parseIndoPrefer chrono now text = TimePassedToday c"
  shows "no_state chrono now chatId text b =
           Some (send chatId AskTomorrowNatural
                  (b\<lparr>notes_table := notes_table b @
                        [\<lparr>note_id = Suc (last_rowid b), chat_id = chatId,
                          note_text = trim (stripIngat text), reminder_at = None,
                          reminded = False, status = ''pending''\<rparr>],
                     last_rowid := Suc (last_rowid b),
                     sess := setState now chatId
                               (ConfirmNext (Some (Suc (last_rowid b))) (trim (stripIngat text))
                                  (formatHHmm c))
                               (sess b)\<rparr>))"
  using assms by (simp add: no_state_def insertNote_def Let_def)

text \<open>
  Claim C10. A natural "ingatkan ..." message from a chat without a session, whose phrase
  resolves to time_passed_today, inserts a row with a null time at once and asks for
  confirmation. An affirmative reply then inserts a second row, set for the next day,
  and arms it; the first row is neither updated nor deleted and keeps its null time.
\<close>

theorem natural_reminder_leaves_null_row:
  assumes "userState (sess b) chatId = None" and "msg \<noteq> []"
    and "allAscii (trim msg)" and "startsIngat (trim msg)" and "trim (stripIngat (trim msg)) \<noteq> []"
    and "parseIndoPrefer chrono now (trim msg) = TimePassedToday c"
    and "rowids_ok b" and "reply \<noteq> []" and "affirmative (trim reply)"
  shows "let noteText = trim (stripIngat (trim msg));
             row1 = \<lparr>note_id = Suc (last_rowid b), chat_id = chatId, note_text = noteText,
                     reminder_at = None, reminded = False, status = ''pending''\<rparr>;
             row2 = \<lparr>note_id = Suc (Suc (last_rowid b)), chat_id = chatId, note_text = noteText,
                     reminder_at = Some (Iso (startOfDay now2 + 86400000
                                              + hour_of c * 3600000 + minute_of c * 60000)),
                     reminded = False, status = ''pending''\<rparr>
         in \<exists>b1 b2. on_message chrono now chatId msg b = Some b1
              \<and> notes_table b1 = notes_table b @ [row1]
              \<and> sched b1 = sched b
              \<and> userState (sess b1) chatId
                   = Some (ConfirmNext (Some (Suc (last_rowid b))) noteText (formatHHmm c))
              \<and> on_message chrono now2 chatId reply b1 = Some b2
              \<and> notes_table b2 = notes_table b @ [row1, row2]
              \<and> sched b2 = scheduleNoteJob now2 (Some row2) (sched b)
              \<and> userState (sess b2) chatId = None"
proof -
  define noteText where "noteText = trim (stripIngat (trim msg))"
  define row1 where "row1 = \<lparr>note_id = Suc (last_rowid b), chat_id = chatId, note_text = noteText,
                     reminder_at = None, reminded = False, status = ''pending''\<rparr>"
  define b1 where "b1 = send chatId AskTomorrowNatural
                  (b\<lparr>notes_table := notes_table b @ [row1],
                     last_rowid := Suc (last_rowid b),
                     sess := setState now chatId
                               (ConfirmNext (Some (Suc (last_rowid b))) noteText (formatHHmm c))
                               (sess b)\<rparr>)"
  have s1: "on_message chrono now chatId msg b = Some b1"
    using assms(1,2) no_state_time_passed[OF assms(3,4,5,6), of chatId b]
    by (simp add: on_message_def b1_def row1_def noteText_def)
  have f1: "notes_table b1 = notes_table b @ [row1]" "sched b1 = sched b"
    "last_rowid b1 = Suc (last_rowid b)"
    "userState (sess b1) chatId
       = Some (ConfirmNext (Some (Suc (last_rowid b))) noteText (formatHHmm c))"
    "sess b1 = setState now chatId
                 (ConfirmNext (Some (Suc (last_rowid b))) noteText (formatHHmm c)) (sess b)"
    by (simp_all add: b1_def send_def setState_session)
  have ok1: "rowids_ok b1"
    using assms(7) by (auto simp: rowids_ok_def f1 row1_def)
  have s2: "on_message chrono now2 chatId reply b1
              = confirm_next now2 chatId (trim reply) noteText (formatHHmm c) b1"
    using assms(8) f1(4) by (simp add: on_message_def)
  show ?thesis
    unfolding Let_def noteText_def[symmetric] row1_def[symmetric]
    using s1 f1(1,2,4)
    by (simp add: s2 confirm_next_yes[OF ok1 assms(9)] f1 showMainMenu_def send_def clearState_session)
qed

theorem natural_reminder_leaves_null_row_witness:
  "userState (sess idle) 5 = None
   \<and> allAscii (trim ''ingatkan saya minum obat hari ini jam 9 pagi'')
   \<and> startsIngat (trim ''ingatkan saya minum obat hari ini jam 9 pagi'')
   \<and> trim (stripIngat (trim ''ingatkan saya minum obat hari ini jam 9 pagi''))
       = ''minum obat hari ini jam 9 pagi''
   \<and> parseIndoPrefer no_chrono 36000000 (trim ''ingatkan saya minum obat hari ini jam 9 pagi'')
       = TimePassedToday 32400000
   \<and> rowids_ok idle \<and> affirmative (trim ''ya'')
   \<and> map_option saved_times
        (on_message no_chrono 36000000 5 ''ingatkan saya minum obat hari ini jam 9 pagi'' idle)
       = Some [Some (Iso 500000000), None]
   \<and> map_option saved_times
        (Option.bind (on_message no_chrono 36000000 5 ''ingatkan saya minum obat hari ini jam 9 pagi'' idle)
                     (on_message no_chrono 36030000 5 ''ya''))
       = Some [Some (Iso 500000000), None, Some (Iso (32400000 + 86400000))]"
proof -
  let ?m = "''ingatkan saya minum obat hari ini jam 9 pagi''"
  have u: "userState (sess idle) 5 = None"
    by (simp add: idle_def bot0_def sess0_def)
  have a: "allAscii (trim ?m)" "startsIngat (trim ?m)"
    and n: "trim (stripIngat (trim ?m)) = ''minum obat hari ini jam 9 pagi''"
    and p: "parseIndoPrefer no_chrono 36000000 (trim ?m) = TimePassedToday 32400000"
    and y: "affirmative (trim ''ya'')"
    by code_simp+
  have r: "rowids_ok idle"
    by (simp add: rowids_ok_def idle_def note1_def)
  have ne: "?m \<noteq> []" "trim (stripIngat (trim ?m)) \<noteq> []" "''ya'' \<noteq> []"
    unfolding n by simp_all
  have d: "hour_of 32400000 = 9" "minute_of 32400000 = 0" "startOfDay 36030000 = 0"
    by (simp_all add: time_defs)
  from natural_reminder_leaves_null_row[OF u ne(1) a ne(2) p r ne(3) y, of 36030000]
  obtain b1 b2 where
    1: "on_message no_chrono 36000000 5 ?m idle = Some b1"
    and 2: "saved_times b1 = [Some (Iso 500000000), None]"
    and 3: "on_message no_chrono 36030000 5 ''ya'' b1 = Some b2"
    and 4: "saved_times b2 = [Some (Iso 500000000), None, Some (Iso 118800000)]"
    unfolding Let_def d saved_times_def
    by (auto simp: idle_def note1_def)
  from u a n p r y 1 2 3 4 show ?thesis
    by simp
qed

end
